theory Spec2Isabelle
  imports Main "HOL-Library.Word" "HOL-Library.Sublist"
begin

section \<open>JavaScript strings\<close>

text \<open>
  A JavaScript string is a sequence of UTF-16 code units. The regular expressions of the
  source have no \<open>u\<close> flag, so they, \<open>split\<close> and \<open>trim\<close> all work on code units.
\<close>

type_synonym char16 = "16 word"
type_synonym jsstring = "char16 list"

definition js :: "string \<Rightarrow> jsstring" where
  \<comment> \<open>an ASCII literal of the source as a JavaScript string\<close>
  "js s = map of_char s"

definition isWhiteSpace :: "char16 \<Rightarrow> bool" where
  \<comment> \<open>ECMAScript WhiteSpace and LineTerminator: what \<open>trim\<close> strips and \<open>\s\<close> matches\<close>
  "isWhiteSpace c \<longleftrightarrow>
     (0x09 \<le> c \<and> c \<le> 0x0D) \<or> c = 0x20 \<or> c = 0xA0 \<or> c = 0x1680 \<or>
     (0x2000 \<le> c \<and> c \<le> 0x200A) \<or> c = 0x2028 \<or> c = 0x2029 \<or> c = 0x202F \<or>
     c = 0x205F \<or> c = 0x3000 \<or> c = 0xFEFF"

definition trim :: "jsstring \<Rightarrow> jsstring" where
  \<comment> \<open>\<open>String.prototype.trim\<close>\<close>
  "trim s = rev (dropWhile isWhiteSpace (rev (dropWhile isWhiteSpace s)))"

fun indexOf_split :: "'a list \<Rightarrow> 'a list \<Rightarrow> ('a list \<times> 'a list) option" where
  \<comment> \<open>the text before the first occurrence of the separator, and the text after it\<close>
  "indexOf_split sep [] = (if sep = [] then Some ([], []) else None)"
| "indexOf_split sep (c # cs) =
     (if prefix sep (c # cs) then Some ([], drop (length sep) (c # cs))
      else map_option (\<lambda>(b, a). (c # b, a)) (indexOf_split sep cs))"

lemma indexOf_split_shorter:
  "indexOf_split sep s = Some (b, a) \<Longrightarrow> sep \<noteq> [] \<Longrightarrow> length a < length s"
  by (induction s arbitrary: b) (auto split: if_splits)

function split :: "'a list \<Rightarrow> 'a list \<Rightarrow> 'a list list" where
  \<comment> \<open>\<open>String.prototype.split\<close> with a string separator and no limit: the occurrences
      are found from left to right and do not overlap; an empty separator gives the
      code units one by one\<close>
  "split sep s =
     (if sep = [] then map (\<lambda>c. [c]) s
      else case indexOf_split sep s of
             None \<Rightarrow> [s]
           | Some (b, a) \<Rightarrow> b # split sep a)"
  by pat_completeness auto
termination
  by (relation "measure (\<lambda>(sep, s). length s)") (auto dest: indexOf_split_shorter)

declare split.simps [simp del]

section \<open>The section parser\<close>

text \<open>
  The parsed sections are a JavaScript object: its keys in insertion order, each with its
  text.
\<close>

type_synonym sections = "(string \<times> jsstring) list"

definition truthy_trim :: "jsstring list \<Rightarrow> nat \<Rightarrow> jsstring" where
  \<comment> \<open>\<open>parts[i] ? parts[i].trim() : ''\<close>: an index out of range reads \<open>undefined\<close>, which
      is falsy, as the empty string is\<close>
  "truthy_trim parts i =
     (if i < length parts \<and> parts ! i \<noteq> [] then trim (parts ! i) else [])"

definition or_empty :: "jsstring list \<Rightarrow> nat \<Rightarrow> jsstring" where
  \<comment> \<open>\<open>paragraphs[i] || ''\<close>\<close>
  "or_empty ps i = (if i < length ps \<and> ps ! i \<noteq> [] then ps ! i else [])"

definition parseStepByStepResponse :: "jsstring \<Rightarrow> sections" where
  "parseStepByStepResponse content =
     (let parts = split (js ''---'') content in
      if 5 \<le> length parts then
        [(''guide_overview'', truthy_trim parts 0),
         (''target_audience'', truthy_trim parts 1),
         (''prerequisites'', truthy_trim parts 2),
         (''steps_content'', truthy_trim parts 3),
         (''conclusion'', truthy_trim parts 4)]
      else
        [(''guide_overview'', content),
         (''target_audience'', js ''General users''),
         (''prerequisites'', js ''No specific prerequisites''),
         (''steps_content'', js ''Steps not properly parsed''),
         (''conclusion'', js ''Conclusion not available'')])"

definition paragraphs :: "jsstring \<Rightarrow> jsstring list" where
  \<comment> \<open>\<open>content.split('\n\n').filter(p => p.trim())\<close>\<close>
  "paragraphs content = filter (\<lambda>p. trim p \<noteq> []) (split [0x0A, 0x0A] content)"

definition parseAIResponse :: "jsstring \<Rightarrow> sections" where
  "parseAIResponse content =
     (let parts = split (js ''---'') content in
      if 6 \<le> length parts then
        [(''initial_findings'', truthy_trim parts 0),
         (''executive_summary'', truthy_trim parts 1),
         (''timeline_events'', truthy_trim parts 2),
         (''risk_impact'', truthy_trim parts 3),
         (''resolution_actions'', truthy_trim parts 4),
         (''lessons_learned'', truthy_trim parts 5)]
      else
        let ps = paragraphs content in
        if 6 \<le> length ps then
          [(''initial_findings'', or_empty ps 0),
           (''executive_summary'', or_empty ps 1),
           (''timeline_events'', or_empty ps 2),
           (''risk_impact'', or_empty ps 3),
           (''resolution_actions'', or_empty ps 4),
           (''lessons_learned'', or_empty ps 5)]
        else
          [(''initial_findings'', content),
           (''executive_summary'', js ''Executive summary not properly parsed''),
           (''timeline_events'', js ''Timeline not properly parsed''),
           (''risk_impact'', js ''Risk assessment not properly parsed''),
           (''resolution_actions'', js ''Resolution actions not properly parsed''),
           (''lessons_learned'', js ''Lessons learned not properly parsed'')])"

definition parseSections :: "jsstring \<Rightarrow> jsstring \<Rightarrow> sections" where
  \<comment> \<open>the choice of parser in the generation routes:
      \<open>template === 'step-by-step-guide' ? parseStepByStepResponse(c) : parseAIResponse(c)\<close>\<close>
  "parseSections template content =
     (if template = js ''step-by-step-guide'' then parseStepByStepResponse content
      else parseAIResponse content)"

text \<open>The section keys of the two shapes, in the order in which the parsers assign them.\<close>

definition guide_keys :: "string list" where
  "guide_keys =
     [''guide_overview'', ''target_audience'', ''prerequisites'', ''steps_content'',
      ''conclusion'']"

definition report_keys :: "string list" where
  "report_keys =
     [''initial_findings'', ''executive_summary'', ''timeline_events'', ''risk_impact'',
      ''resolution_actions'', ''lessons_learned'']"

text \<open>
  The number of parts each parser requires of the split on the delimiter, and its keys, by
  template: the guide parser is chosen for \<open>step-by-step-guide\<close> and the report
  parser for every other template.
\<close>

definition requiredCount :: "jsstring \<Rightarrow> nat" where
  "requiredCount template = (if template = js ''step-by-step-guide'' then 5 else 6)"

definition sectionKeys :: "jsstring \<Rightarrow> string list" where
  "sectionKeys template = (if template = js ''step-by-step-guide'' then guide_keys else report_keys)"
section \<open>Storage paths\<close>

definition join :: "'a list \<Rightarrow> 'a list list \<Rightarrow> 'a list" where
  \<comment> \<open>\<open>Array.prototype.join\<close>\<close>
  "join sep xs = (case xs of [] \<Rightarrow> [] | x # rest \<Rightarrow> x @ concat (map (\<lambda>y. sep @ y) rest))"

text \<open>
  \<open>path.join\<close> of Node.js on a POSIX system: the non-empty arguments are joined with a
  slash and the result is normalized, which drops empty and \<open>.\<close> segments and resolves
  \<open>..\<close> against the segment before it (above the root of an absolute path it is dropped,
  in a relative path it is kept).
\<close>

fun normalizeSegments :: "bool \<Rightarrow> jsstring list \<Rightarrow> jsstring list \<Rightarrow> jsstring list" where
  "normalizeSegments allowAboveRoot res [] = rev res"
| "normalizeSegments allowAboveRoot res (seg # segs) =
     (if seg = [] \<or> seg = js ''.'' then normalizeSegments allowAboveRoot res segs
      else if seg = js ''..'' then
        (case res of
           lastSeg # below \<Rightarrow>
             if lastSeg = js ''..'' then normalizeSegments allowAboveRoot (js ''..'' # res) segs
             else normalizeSegments allowAboveRoot below segs
         | [] \<Rightarrow>
             if allowAboveRoot then normalizeSegments allowAboveRoot [js ''..''] segs
             else normalizeSegments allowAboveRoot [] segs)
      else normalizeSegments allowAboveRoot (seg # res) segs)"

definition path_normalize :: "jsstring \<Rightarrow> jsstring" where
  "path_normalize p =
     (if p = [] then js ''.''
      else
        let isAbsolute = (hd p = 0x2F);
            trailingSeparator = (last p = 0x2F);
            res = join (js ''/'') (normalizeSegments (\<not> isAbsolute) [] (split (js ''/'') p))
        in if res = [] then (if isAbsolute then js ''/'' else if trailingSeparator then js ''./'' else js ''.'')
           else (if isAbsolute then js ''/'' else []) @ res @ (if trailingSeparator then js ''/'' else []))"

definition path_join :: "jsstring list \<Rightarrow> jsstring" where
  "path_join args =
     (let joined = filter (\<lambda>a. a \<noteq> []) args
      in if joined = [] then js ''.'' else path_normalize (join (js ''/'') joined))"

text \<open>
  \<open>Number.prototype.toString\<close> of an integer, in decimal (the years and timestamps of a
  \<open>Date\<close> are far below the magnitude at which JavaScript changes to exponent notation),
  and \<open>String.prototype.padStart\<close> with a one-character filler.
\<close>

function digits :: "nat \<Rightarrow> jsstring" where
  "digits n = (if n < 10 then [0x30 + of_nat n] else digits (n div 10) @ [0x30 + of_nat (n mod 10)])"
  by pat_completeness auto
termination
  by (relation "measure id") auto

declare digits.simps [simp del]

definition toString :: "int \<Rightarrow> jsstring" where
  "toString i = (if i < 0 then 0x2D # digits (nat (- i)) else digits (nat i))"

definition padStart :: "nat \<Rightarrow> char16 \<Rightarrow> jsstring \<Rightarrow> jsstring" where
  "padStart n c s = replicate (n - length s) c @ s"


definition isAlphaNum :: "char16 \<Rightarrow> bool" where
  \<comment> \<open>the class \<open>a-zA-Z0-9\<close>\<close>
  "isAlphaNum c \<longleftrightarrow>
     (0x61 \<le> c \<and> c \<le> 0x7A) \<or> (0x41 \<le> c \<and> c \<le> 0x5A) \<or> (0x30 \<le> c \<and> c \<le> 0x39)"

definition sanitizeEmail :: "jsstring \<Rightarrow> jsstring" where
  \<comment> \<open>\<open>userEmail.replace(/[^a-zA-Z0-9@.-]/g, '_')\<close>\<close>
  "sanitizeEmail userEmail =
     map (\<lambda>c. if isAlphaNum c \<or> c = 0x40 \<or> c = 0x2E \<or> c = 0x2D then c else 0x5F) userEmail"

definition getUserStoragePath :: "jsstring \<Rightarrow> jsstring \<Rightarrow> jsstring" where
  "getUserStoragePath baseStoragePath userEmail =
     path_join [baseStoragePath, sanitizeEmail userEmail]"

function replaceWhitespaceRuns :: "jsstring \<Rightarrow> jsstring" where
  \<comment> \<open>\<open>.replace(/\s+/g, '_')\<close>: every maximal run of whitespace becomes one underscore\<close>
  "replaceWhitespaceRuns [] = []"
| "replaceWhitespaceRuns (c # cs) =
     (if isWhiteSpace c then 0x5F # replaceWhitespaceRuns (dropWhile isWhiteSpace cs)
      else c # replaceWhitespaceRuns cs)"
  by pat_completeness auto
termination
  by (relation "measure length") (auto simp: length_dropWhile_le less_Suc_eq_le)

definition safeTitle :: "jsstring \<Rightarrow> jsstring" where
  \<comment> \<open>\<open>title.replace(/[^a-zA-Z0-9\s-]/g, '').replace(/\s+/g, '_')\<close>\<close>
  "safeTitle title =
     replaceWhitespaceRuns (filter (\<lambda>c. isAlphaNum c \<or> isWhiteSpace c \<or> c = 0x2D) title)"

text \<open>
  The path that \<open>generateDocumentPath\<close> returns, as a function of what it reads from the
  clock: \<open>getFullYear()\<close> and \<open>getMonth()\<close> of \<open>new Date()\<close>, and \<open>Date.now()\<close>.
\<close>

definition documentPath ::
  "jsstring \<Rightarrow> jsstring \<Rightarrow> jsstring \<Rightarrow> jsstring \<Rightarrow> jsstring \<Rightarrow> int \<Rightarrow> nat \<Rightarrow> int \<Rightarrow> jsstring" where
  "documentPath baseStoragePath userEmail templateType title format fullYear month timestamp =
     (let userPath = getUserStoragePath baseStoragePath userEmail;
          documentsPath = path_join [userPath, js ''documents''];
          year = toString fullYear;
          month = padStart 2 0x30 (toString (int month + 1));
          datePath = path_join [documentsPath, year, month];
          filename = toString timestamp @ js ''_'' @ templateType @ js ''_'' @ safeTitle title @
                     js ''.'' @ format
      in path_join [datePath, filename])"


text \<open>
  A path segment that normalization leaves alone, and an absolute path made of such
  segments only (as the service's \<open>baseStoragePath\<close>, itself a result of \<open>path.join\<close>
  on the absolute \<open>__dirname\<close>, is).
\<close>

definition isPlainSegment :: "jsstring \<Rightarrow> bool" where
  "isPlainSegment seg \<longleftrightarrow> seg \<noteq> [] \<and> 0x2F \<notin> set seg \<and> seg \<noteq> js ''.'' \<and> seg \<noteq> js ''..''"

definition isNormalizedRoot :: "jsstring \<Rightarrow> bool" where
  "isNormalizedRoot p \<longleftrightarrow>
     (case p of [] \<Rightarrow> False
      | c # rest \<Rightarrow> c = 0x2F \<and> list_all isPlainSegment (split (js ''/'') rest))"



section \<open>The document store\<close>

text \<open>
  The objects that the service serializes with \<open>JSON.stringify\<close> when it writes a row and
  parses with \<open>JSON.parse\<close> when it reads it are kept in the row as the JSON value they
  are. The values bound to a statement are those that reach the store from a request
  body (the values of the keys of \<open>updates\<close> and of the batch \<open>data\<close>) and, as \<open>Json\<close>, the
  text \<open>JSON.stringify\<close> gives for a value.
\<close>

datatype json =
    JNull
  | JBool bool
  | JNumber int
  | JString jsstring
  | JArray "json list"
  | JObject "(jsstring \<times> json) list"

datatype jsval = Undefined | Null | Bool bool | Num int | Str jsstring | Json json

text \<open>
  The errors the service and the batch route raise, each \<open>new Error(...)\<close> of the source
  by the name of its message; \<open>IOFault\<close> is an error raised by the database driver or
  the file system, with its message, and \<open>UndefinedBindParameter\<close> the error the driver's
  \<open>execute\<close> raises, before it sends anything, when a bound value is \<open>undefined\<close>.
\<close>

datatype error =
    IOFault string
  | DocumentNotFound
  | NoValidUpdates
  | InvalidBatchAction
  | UndefinedBindParameter
  | FailedToSaveDocument string

fun message :: "error \<Rightarrow> string" where
  "message (IOFault m) = m"
| "message DocumentNotFound = ''Document not found''"
| "message NoValidUpdates = ''No valid updates provided''"
| "message InvalidBatchAction = ''Invalid batch action''"
| "message UndefinedBindParameter =
     ''Bind parameters must not contain undefined. To pass SQL NULL specify JS null''"
| "message (FailedToSaveDocument m) = ''Failed to save document: '' @ m"

text \<open>
  The rows of the tables \<open>documents\<close>, \<open>document_tags\<close> and \<open>ai_generation_logs\<close>, by the
  columns the statements of the service name. The three columns \<open>updateDocument\<close> can set
  hold the bound value as it is; in the metadata object, \<open>generatedAt\<close> is the instant
  read from the clock, not its ISO text.
\<close>

record doc_row =
  doc_id :: jsstring
  user_id :: jsstring
  doc_title :: jsval
  template_type :: jsstring
  file_path :: jsstring
  content_preview :: jsstring
  original_sections :: json
  parsed_sections :: json
  metadata :: json
  file_size :: nat
  file_format :: jsstring
  is_favorite :: jsval
  is_archived :: jsval
  created_at :: int
  updated_at :: int

record tag_row =
  tag_id :: jsstring
  document_id :: jsstring
  tag_name :: jsstring

record log_row =
  log_id :: jsstring
  log_user_id :: jsstring
  log_document_id :: jsstring
  log_template_type :: jsstring
  input_data :: json
  generated_content :: jsstring
  success :: bool
  model_used :: jsstring
  log_created_at :: int

text \<open>
  The calls that leave the process: each may fail, and each is recorded, with its
  outcome, in the order in which it is made.
\<close>

datatype io_op =
    CreateConnection
  | ConnectionEnd
  | Mkdir jsstring
  | WriteFile jsstring
  | Stat jsstring
  | Unlink jsstring
  | InsertDocument jsstring
  | InsertLog jsstring
  | SelectDocument jsstring jsstring
  | DeleteDocument jsstring jsstring
  | UpdateDocument jsstring jsstring
  | DeleteTags jsstring
  | InsertTags jsstring

record date_reading =
  getFullYear :: int
  getMonth :: nat
  getTime :: int

text \<open>
  What the service does not decide: whether the n-th call that leaves the process fails
  (and with which message), what the clock reads when n such calls have been made, the
  n-th result of \<open>crypto.randomUUID()\<close>, and whether the schema of the database gives
  the foreign key of \<open>document_tags\<close> on \<open>documents\<close> the referential cascade (see
  \<open>deleteRows\<close>).
\<close>

record env =
  io_fault :: "nat \<Rightarrow> string option"
  clock :: "nat \<Rightarrow> date_reading"
  randomUUID :: "nat \<Rightarrow> jsstring"
  on_delete_cascade :: bool

text \<open>
  The state outside the process: the files and directories under the storage root, the
  three tables with their rows in insertion order, the calls made so far and the number
  of UUIDs drawn so far.
\<close>

record store =
  files :: "(jsstring \<times> 8 word list) list"
  dirs :: "jsstring list"
  documents :: "doc_row list"
  document_tags :: "tag_row list"
  ai_generation_logs :: "log_row list"
  trace :: "(io_op \<times> bool) list"
  tick :: nat
  uuids :: nat

text \<open>
  An \<open>async\<close> function of the service is a function of the store that returns the value
  it resolves with, or the error it rejects with, and the store it leaves.
  \<open>andThen\<close> is \<open>await\<close> followed by the rest of the function, \<open>tryCatch\<close> and \<open>tryFinally\<close>
  are \<open>try { } catch (error) { }\<close> and \<open>try { } finally { }\<close>: an error raised by the
  finalizer replaces the outcome of the body.
\<close>

type_synonym 'a action = "store \<Rightarrow> (error + 'a) \<times> store"

definition succeed :: "'a \<Rightarrow> 'a action" where
  "succeed a s = (Inr a, s)"

definition throw :: "error \<Rightarrow> 'a action" where
  "throw e s = (Inl e, s)"

definition andThen :: "'a action \<Rightarrow> ('a \<Rightarrow> 'b action) \<Rightarrow> 'b action" where
  "andThen m f s = (case m s of (Inl e, s') \<Rightarrow> (Inl e, s') | (Inr a, s') \<Rightarrow> f a s')"

definition tryCatch :: "'a action \<Rightarrow> (error \<Rightarrow> 'a action) \<Rightarrow> 'a action" where
  "tryCatch m handler s = (case m s of (Inl e, s') \<Rightarrow> handler e s' | (Inr a, s') \<Rightarrow> (Inr a, s'))"

definition tryFinally :: "'a action \<Rightarrow> unit action \<Rightarrow> 'a action" where
  "tryFinally m finalizer s =
     (case m s of (r, s') \<Rightarrow>
        (case finalizer s' of (Inl e, s'') \<Rightarrow> (Inl e, s'') | (Inr _, s'') \<Rightarrow> (r, s'')))"

definition modify :: "(store \<Rightarrow> store) \<Rightarrow> unit action" where
  "modify f s = (Inr (), f s)"

definition io :: "env \<Rightarrow> io_op \<Rightarrow> unit action" where
  "io e op s =
     (case io_fault e (tick s) of
        None \<Rightarrow> (Inr (), s\<lparr>trace := trace s @ [(op, True)], tick := Suc (tick s)\<rparr>)
      | Some m \<Rightarrow> (Inl (IOFault m), s\<lparr>trace := trace s @ [(op, False)], tick := Suc (tick s)\<rparr>))"

definition missing_file :: "io_op \<Rightarrow> 'a action" where
  \<comment> \<open>a call on a path that has no file: it is made, and rejects with \<open>ENOENT\<close>\<close>
  "missing_file op s =
     (Inl (IOFault ''ENOENT''), s\<lparr>trace := trace s @ [(op, False)], tick := Suc (tick s)\<rparr>)"

definition execute :: "env \<Rightarrow> io_op \<Rightarrow> jsval list \<Rightarrow> unit action" where
  "execute e op params = (if Undefined \<in> set params then throw UndefinedBindParameter else io e op)"

definition crypto_randomUUID :: "env \<Rightarrow> jsstring action" where
  "crypto_randomUUID e s = (Inr (randomUUID e (uuids s)), s\<lparr>uuids := Suc (uuids s)\<rparr>)"

text \<open>
  The SQL function \<open>NOW()\<close>, and \<open>v || d\<close> for a string \<open>v\<close> that may be absent (the empty
  string is falsy as well).
\<close>

definition NOW :: "env \<Rightarrow> store \<Rightarrow> int" where
  "NOW e s = getTime (clock e (tick s))"

definition orDefault :: "jsstring option \<Rightarrow> jsstring \<Rightarrow> jsstring" where
  "orDefault v d = (case v of None \<Rightarrow> d | Some x \<Rightarrow> if x = [] then d else x)"

definition orEmptyObject :: "json option \<Rightarrow> json" where
  \<comment> \<open>\<open>sections || {}\<close>: an absent value and the falsy values \<open>null\<close>, \<open>false\<close>, \<open>0\<close> and
      \<open>''\<close> give the empty object\<close>
  "orEmptyObject v =
     (case v of
        None \<Rightarrow> JObject []
      | Some x \<Rightarrow>
          if x = JNull \<or> x = JBool False \<or> x = JNumber 0 \<or> x = JString [] then JObject []
          else x)"

text \<open>
  \<open>getDocument\<close>. The query joins the rows of \<open>documents\<close> with the given id and owner
  to their tag rows; all of them have the same id and so form one group, whose
  \<open>GROUP_CONCAT(dt.tag_name)\<close> is the comma-joined list of the joined tag names, in row
  order, and \<open>NULL\<close> when there is none. The service then returns the first row with
  \<open>tags: document.tags ? document.tags.split(',') : []\<close>.
\<close>

definition GROUP_CONCAT :: "jsstring list \<Rightarrow> jsstring option" where
  "GROUP_CONCAT names = (if names = [] then None else Some (join (js '','') names))"

definition tagsField :: "jsstring option \<Rightarrow> jsstring list" where
  "tagsField tags = (case tags of None \<Rightarrow> [] | Some t \<Rightarrow> if t = [] then [] else split (js '','') t)"

definition joinedTagNames :: "doc_row list \<Rightarrow> tag_row list \<Rightarrow> jsstring list" where
  "joinedTagNames matched tagRows =
     concat (map (\<lambda>d. map tag_name (filter (\<lambda>t. document_id t = doc_id d) tagRows)) matched)"

definition tagsOf :: "doc_row list \<Rightarrow> tag_row list \<Rightarrow> jsstring list" where
  "tagsOf matched tagRows = tagsField (GROUP_CONCAT (joinedTagNames matched tagRows))"

definition getDocument :: "env \<Rightarrow> jsstring \<Rightarrow> jsstring \<Rightarrow> (doc_row \<times> jsstring list) action" where
  "getDocument e documentId userId =
     andThen (io e CreateConnection) (\<lambda>_.
       tryFinally
         (andThen (io e (SelectDocument documentId userId)) (\<lambda>_ s.
            case filter (\<lambda>d. doc_id d = documentId \<and> user_id d = userId) (documents s) of
              [] \<Rightarrow> (Inl DocumentNotFound, s)
            | document # others \<Rightarrow>
                (Inr (document, tagsOf (document # others) (document_tags s)), s)))
         (io e ConnectionEnd))"

text \<open>
  \<open>deleteDocument\<close>. Its only statement on the database is
  \<open>DELETE FROM documents WHERE id = ? AND user_id = ?\<close>; the tag rows of the deleted rows
  go with them when the schema has the referential cascade.
\<close>

definition unlink :: "env \<Rightarrow> jsstring \<Rightarrow> unit action" where
  "unlink e p s =
     (if p \<in> fst ` set (files s) then
        andThen (io e (Unlink p))
          (\<lambda>_. modify (\<lambda>s1. s1\<lparr>files := filter (\<lambda>f. fst f \<noteq> p) (files s1)\<rparr>)) s
      else missing_file (Unlink p) s)"

text \<open>
  Modelled from the spec: the declaration of the table \<open>document_tags\<close> is not in the
  source. The specification has tag rows "removed by referential cascade or explicit
  cleanup" when a document is deleted, and \<open>deleteDocument\<close> has no statement on
  \<open>document_tags\<close>; so the effect of its \<open>DELETE\<close> on the tag rows is that of the
  cascade, where the schema declares it (\<open>on_delete_cascade\<close>), and none otherwise.
\<close>

definition deleteRows :: "env \<Rightarrow> jsstring \<Rightarrow> jsstring \<Rightarrow> store \<Rightarrow> store" where
  "deleteRows e documentId userId s =
     (let deleted = filter (\<lambda>d. doc_id d = documentId \<and> user_id d = userId) (documents s)
      in s\<lparr>documents := filter (\<lambda>d. \<not> (doc_id d = documentId \<and> user_id d = userId)) (documents s),
           document_tags :=
             (if on_delete_cascade e
              then filter (\<lambda>t. document_id t \<notin> doc_id ` set deleted) (document_tags s)
              else document_tags s)\<rparr>)"

definition deleteDocument :: "env \<Rightarrow> jsstring \<Rightarrow> jsstring \<Rightarrow> unit action" where
  "deleteDocument e documentId userId =
     andThen (io e CreateConnection) (\<lambda>_.
       tryFinally
         (andThen (getDocument e documentId userId) (\<lambda>document.
          andThen (tryCatch (unlink e (file_path (fst document))) (\<lambda>fileError. succeed ())) (\<lambda>_.
          andThen (execute e (DeleteDocument documentId userId) [Str documentId, Str userId]) (\<lambda>_.
          modify (deleteRows e documentId userId)))))
         (io e ConnectionEnd))"

text \<open>\<open>updateDocument\<close>, with \<open>updates\<close> as the list of \<open>Object.entries(updates)\<close>.\<close>

definition allowedUpdates :: "jsstring list" where
  "allowedUpdates = [js ''title'', js ''is_favorite'', js ''is_archived'']"

definition setColumn :: "jsstring \<times> jsval \<Rightarrow> doc_row \<Rightarrow> doc_row" where
  "setColumn kv d =
     (if fst kv = js ''title'' then d\<lparr>doc_title := snd kv\<rparr>
      else if fst kv = js ''is_favorite'' then d\<lparr>is_favorite := snd kv\<rparr>
      else if fst kv = js ''is_archived'' then d\<lparr>is_archived := snd kv\<rparr>
      else d)"

definition updateRows ::
  "env \<Rightarrow> jsstring \<Rightarrow> jsstring \<Rightarrow> (jsstring \<times> jsval) list \<Rightarrow> store \<Rightarrow> store" where
  "updateRows e documentId userId updateFields s =
     s\<lparr>documents :=
         map (\<lambda>d. if doc_id d = documentId \<and> user_id d = userId
                  then (fold setColumn updateFields d)\<lparr>updated_at := NOW e s\<rparr>
                  else d)
           (documents s)\<rparr>"

definition updateDocument ::
  "env \<Rightarrow> jsstring \<Rightarrow> jsstring \<Rightarrow> (jsstring \<times> jsval) list \<Rightarrow> (doc_row \<times> jsstring list) action" where
  "updateDocument e documentId userId updates =
     andThen (io e CreateConnection) (\<lambda>_.
       tryFinally
         (let updateFields = filter (\<lambda>kv. fst kv \<in> set allowedUpdates) updates in
          if updateFields = [] then throw NoValidUpdates
          else
            andThen (execute e (UpdateDocument documentId userId)
                       (map snd updateFields @ [Str documentId, Str userId])) (\<lambda>_.
            andThen (modify (updateRows e documentId userId updateFields)) (\<lambda>_.
            getDocument e documentId userId)))
         (io e ConnectionEnd))"

text \<open>
  \<open>addDocumentTags\<close>. \<open>tags\<close> is \<open>None\<close> when the request has none (\<open>undefined\<close> or
  \<open>null\<close>); \<open>tagValues\<close> draws one UUID for each tag, in order.
\<close>

fun tagValues :: "env \<Rightarrow> jsstring \<Rightarrow> jsstring list \<Rightarrow> nat \<Rightarrow> tag_row list" where
  "tagValues e documentId [] n = []"
| "tagValues e documentId (tag # rest) n =
     \<lparr>tag_id = randomUUID e n, document_id = documentId, tag_name = trim tag\<rparr> #
     tagValues e documentId rest (Suc n)"

definition insertTags :: "env \<Rightarrow> jsstring \<Rightarrow> jsstring list \<Rightarrow> unit action" where
  "insertTags e documentId tags s =
     (let tagValues = tagValues e documentId tags (uuids s);
          s1 = s\<lparr>uuids := uuids s + length tags\<rparr>
      in andThen (execute e (InsertTags documentId)
                    (concat (map (\<lambda>r. [Str (tag_id r), Str (document_id r), Str (tag_name r)]) tagValues)))
           (\<lambda>_. modify (\<lambda>s2. s2\<lparr>document_tags := document_tags s2 @ tagValues\<rparr>)) s1)"

definition addDocumentTags ::
  "env \<Rightarrow> jsstring \<Rightarrow> jsstring \<Rightarrow> jsstring list option \<Rightarrow> jsstring list option action" where
  "addDocumentTags e documentId userId tags =
     andThen (io e CreateConnection) (\<lambda>_.
       tryFinally
         (andThen (getDocument e documentId userId) (\<lambda>_.
          andThen (execute e (DeleteTags documentId) [Str documentId]) (\<lambda>_.
          andThen (modify (\<lambda>s. s\<lparr>document_tags :=
                     filter (\<lambda>t. document_id t \<noteq> documentId) (document_tags s)\<rparr>)) (\<lambda>_.
          andThen (case tags of
                     None \<Rightarrow> succeed ()
                   | Some ts \<Rightarrow> if 0 < length ts then insertTags e documentId ts else succeed ()) (\<lambda>_.
          succeed tags)))))
         (io e ConnectionEnd))"

text \<open>
  \<open>saveDocument\<close>. The fields of \<open>documentData\<close> that may be absent are options; the flags
  \<open>is_favorite\<close> and \<open>is_archived\<close> of a new row are the defaults of the schema, taken
  to be \<open>FALSE\<close> (the default listing, with \<open>archived = false\<close>, shows new documents).
\<close>

record documentData =
  data_userId :: jsstring
  data_title :: jsstring
  data_template :: jsstring
  data_format :: "jsstring option"
  data_contentPreview :: "jsstring option"
  data_originalSections :: "json option"
  data_parsedSections :: "json option"
  data_aiModel :: "jsstring option"

definition documentDatePath :: "jsstring \<Rightarrow> jsstring \<Rightarrow> int \<Rightarrow> nat \<Rightarrow> jsstring" where
  "documentDatePath baseStoragePath userEmail year month =
     path_join [path_join [getUserStoragePath baseStoragePath userEmail, js ''documents''],
                toString year, padStart 2 0x30 (toString (int month + 1))]"

definition generateDocumentPath ::
  "env \<Rightarrow> jsstring \<Rightarrow> jsstring \<Rightarrow> jsstring \<Rightarrow> jsstring \<Rightarrow> jsstring \<Rightarrow> jsstring action" where
  "generateDocumentPath e baseStoragePath userEmail templateType title format s =
     (let now = clock e (tick s);
          datePath = documentDatePath baseStoragePath userEmail (getFullYear now) (getMonth now)
      in andThen (io e (Mkdir datePath)) (\<lambda>_ s1.
           (Inr (documentPath baseStoragePath userEmail templateType title format
                   (getFullYear now) (getMonth now) (getTime (clock e (tick s1)))),
            s1\<lparr>dirs := datePath # dirs s1\<rparr>)) s)"

definition writeFile :: "env \<Rightarrow> jsstring \<Rightarrow> 8 word list \<Rightarrow> unit action" where
  "writeFile e p content =
     andThen (io e (WriteFile p))
       (\<lambda>_. modify (\<lambda>s. s\<lparr>files := (p, content) # filter (\<lambda>f. fst f \<noteq> p) (files s)\<rparr>))"

definition stat_size :: "env \<Rightarrow> jsstring \<Rightarrow> nat action" where
  "stat_size e p s =
     (case map_of (files s) p of
        None \<Rightarrow> missing_file (Stat p) s
      | Some content \<Rightarrow> andThen (io e (Stat p)) (\<lambda>_. succeed (length content)) s)"

definition insertDocument ::
  "env \<Rightarrow> jsstring \<Rightarrow> documentData \<Rightarrow> jsstring \<Rightarrow> nat \<Rightarrow> unit action" where
  "insertDocument e documentId documentData filePath fileSize s0 =
     (let generated =
            JObject [(js ''generatedAt'', JNumber (getTime (clock e (tick s0)))),
                     (js ''version'', JNumber 1),
                     (js ''aiModel'',
                      JString (orDefault (data_aiModel documentData) (js ''gpt-4'')))]
      in andThen (execute e (InsertDocument documentId)
                [Str documentId, Str (data_userId documentData), Str (data_title documentData),
                 Str (data_template documentData), Str filePath,
                 Str (orDefault (data_contentPreview documentData) []),
                 Json (orEmptyObject (data_originalSections documentData)),
                 Json (orEmptyObject (data_parsedSections documentData)),
                 Json generated,
                 Num (int fileSize), Str (orDefault (data_format documentData) (js ''docx''))])
       (\<lambda>_ s.
          (Inr (),
           s\<lparr>documents := documents s @
              [\<lparr>doc_id = documentId, user_id = data_userId documentData,
                doc_title = Str (data_title documentData),
                template_type = data_template documentData, file_path = filePath,
                content_preview = orDefault (data_contentPreview documentData) [],
                original_sections = orEmptyObject (data_originalSections documentData),
                parsed_sections = orEmptyObject (data_parsedSections documentData),
                metadata = generated,
                file_size = fileSize,
                file_format = orDefault (data_format documentData) (js ''docx''),
                is_favorite = Bool False, is_archived = Bool False,
                created_at = NOW e s, updated_at = NOW e s\<rparr>]\<rparr>)) s0)"

definition logDocumentGeneration ::
  "env \<Rightarrow> jsstring \<Rightarrow> jsstring \<Rightarrow> jsstring \<Rightarrow> json option \<Rightarrow> jsstring option \<Rightarrow> bool \<Rightarrow>
   jsstring option \<Rightarrow> unit action" where
  "logDocumentGeneration e userId documentId templateType inputData generatedContent ok modelUsed =
     tryCatch
       (andThen (crypto_randomUUID e) (\<lambda>logId.
        andThen (execute e (InsertLog documentId)
                   [Str logId, Str userId, Str documentId, Str templateType,
                    Json (orEmptyObject inputData), Str (orDefault generatedContent []),
                    Bool ok, Str (orDefault modelUsed (js ''azure-gpt-4''))])
          (\<lambda>_ s.
             (Inr (),
              s\<lparr>ai_generation_logs := ai_generation_logs s @
                 [\<lparr>log_id = logId, log_user_id = userId, log_document_id = documentId,
                   log_template_type = templateType,
                   input_data = orEmptyObject inputData,
                   generated_content = orDefault generatedContent [],
                   success = ok, model_used = orDefault modelUsed (js ''azure-gpt-4''),
                   log_created_at = NOW e s\<rparr>]\<rparr>))))
       (\<lambda>error. succeed ())"

record saved =
  saved_id :: jsstring
  saved_filePath :: jsstring
  saved_fileSize :: nat
  saved_created :: bool

definition saveDocument ::
  "env \<Rightarrow> jsstring \<Rightarrow> jsstring \<Rightarrow> documentData \<Rightarrow> 8 word list \<Rightarrow> saved action" where
  "saveDocument e baseStoragePath userEmail documentData fileBuffer =
     andThen (io e CreateConnection) (\<lambda>_.
       tryFinally
         (tryCatch
            (andThen (crypto_randomUUID e) (\<lambda>documentId.
             andThen (generateDocumentPath e baseStoragePath userEmail (data_template documentData)
                        (data_title documentData)
                        (orDefault (data_format documentData) (js ''docx''))) (\<lambda>filePath.
             andThen (writeFile e filePath fileBuffer) (\<lambda>_.
             andThen (stat_size e filePath) (\<lambda>fileSize.
             andThen (insertDocument e documentId documentData filePath fileSize) (\<lambda>_.
             andThen (logDocumentGeneration e (data_userId documentData) documentId
                        (data_template documentData) (data_originalSections documentData)
                        (data_contentPreview documentData) True None) (\<lambda>_.
             succeed \<lparr>saved_id = documentId, saved_filePath = filePath,
                      saved_fileSize = fileSize, saved_created = True\<rparr>)))))))
            (\<lambda>error. throw (FailedToSaveDocument (message error))))
         (io e ConnectionEnd))"

text \<open>
  The batch route \<open>POST /user/documents/batch\<close>: the loop over \<open>documentIds\<close> with its
  \<open>try\<close> and \<open>catch\<close> around each item; \<open>batch\<close> returns the \<open>results\<close> array that the
  route sends with \<open>success: true\<close>.
\<close>

datatype batch_payload = Deleted | Updated "doc_row \<times> jsstring list"

datatype batch_entry = ItemSuccess jsstring batch_payload | ItemFailure jsstring string

definition property :: "(jsstring \<times> jsval) list \<Rightarrow> jsstring \<Rightarrow> jsval" where
  "property obj k = (case map_of obj k of None \<Rightarrow> Undefined | Some v \<Rightarrow> v)"

definition batchAction ::
  "env \<Rightarrow> jsstring \<Rightarrow> jsstring \<Rightarrow> (jsstring \<times> jsval) list \<Rightarrow> jsstring \<Rightarrow> batch_payload action" where
  "batchAction e userId action data documentId =
     (if action = js ''delete'' then
        andThen (deleteDocument e documentId userId) (\<lambda>_. succeed Deleted)
      else if action = js ''favorite'' then
        andThen (updateDocument e documentId userId [(js ''is_favorite'', property data (js ''favorite''))])
          (\<lambda>document. succeed (Updated document))
      else if action = js ''archive'' then
        andThen (updateDocument e documentId userId [(js ''is_archived'', property data (js ''archived''))])
          (\<lambda>document. succeed (Updated document))
      else throw InvalidBatchAction)"

fun batch ::
  "env \<Rightarrow> jsstring \<Rightarrow> jsstring \<Rightarrow> (jsstring \<times> jsval) list \<Rightarrow> jsstring list \<Rightarrow> store \<Rightarrow>
   batch_entry list \<times> store" where
  "batch e userId action data [] s = ([], s)"
| "batch e userId action data (documentId # rest) s =
     (case batchAction e userId action data documentId s of
        (Inr result, s1) \<Rightarrow>
          (case batch e userId action data rest s1 of
             (results, s2) \<Rightarrow> (ItemSuccess documentId result # results, s2))
      | (Inl error, s1) \<Rightarrow>
          (case batch e userId action data rest s1 of
             (results, s2) \<Rightarrow> (ItemFailure documentId (message error) # results, s2)))"

section \<open>Vocabulary of the store properties\<close>

text \<open>
  The three steps of \<open>saveDocument\<close> whose order matters, and the steps a call made:
  what it added to the record of calls, with the outcome of each.
\<close>

datatype step_kind = FileWrite | MetadataInsert | LogAppend

fun saveStep :: "io_op \<times> bool \<Rightarrow> (step_kind \<times> bool) option" where
  "saveStep (WriteFile p, ok) = Some (FileWrite, ok)"
| "saveStep (InsertDocument d, ok) = Some (MetadataInsert, ok)"
| "saveStep (InsertLog d, ok) = Some (LogAppend, ok)"
| "saveStep (other, ok) = None"

definition saveSteps :: "store \<Rightarrow> store \<Rightarrow> (step_kind \<times> bool) list" where
  "saveSteps s s' = List.map_filter saveStep (drop (length (trace s)) (trace s'))"

text \<open>Example environments, stores and inputs, for the concrete instances.\<close>

definition no_faults :: "env" where
  "no_faults =
     \<lparr>io_fault = (\<lambda>n. None),
      clock = (\<lambda>n. \<lparr>getFullYear = 2024, getMonth = 2, getTime = 1710000000000 + int n\<rparr>),
      randomUUID = (\<lambda>n. js ''uuid-'' @ toString (int n)),
      on_delete_cascade = True\<rparr>"

definition write_fault :: "env" where
  "write_fault = no_faults\<lparr>io_fault := (\<lambda>n. if n = 2 then Some ''EACCES'' else None)\<rparr>"

definition empty_store :: store where
  "empty_store =
     \<lparr>files = [], dirs = [], documents = [], document_tags = [], ai_generation_logs = [],
      trace = [], tick = 0, uuids = 0\<rparr>"

definition example_data :: documentData where
  "example_data =
     \<lparr>data_userId = js ''user-1'', data_title = js ''Q1 Outage'', data_template = js ''rca'',
      data_format = None, data_contentPreview = None, data_originalSections = None,
      data_parsedSections = None, data_aiModel = None\<rparr>"

text \<open>
  The columns of a document row that \<open>updateDocument\<close> must not touch, the entries of
  \<open>updates\<close> that pass its allow-list, and the rows of a document of an owner.
\<close>

definition immutable_columns ::
  "doc_row \<Rightarrow> (jsstring \<times> jsstring \<times> jsstring \<times> jsstring \<times> jsstring) \<times>
     (json \<times> json \<times> json \<times> nat \<times> jsstring \<times> int)" where
  "immutable_columns d =
     ((doc_id d, user_id d, template_type d, file_path d, content_preview d),
      (original_sections d, parsed_sections d, metadata d, file_size d, file_format d,
       created_at d))"

definition allowedFields :: "(jsstring \<times> jsval) list \<Rightarrow> (jsstring \<times> jsval) list" where
  "allowedFields updates = filter (\<lambda>kv. fst kv \<in> set allowedUpdates) updates"

text \<open>
  What an update leaves in a row: the column \<open>k\<close> holds the value of the last entry of
  \<open>updates\<close> with the key \<open>k\<close> (an object has one at most), and its old value when there is
  none; \<open>stored_row\<close> is the row with the three columns of the allow-list so set and
  \<open>updated_at\<close> set to \<open>t\<close>, every other column as it was.
\<close>

fun stored_value :: "(jsstring \<times> jsval) list \<Rightarrow> jsstring \<Rightarrow> jsval \<Rightarrow> jsval" where
  "stored_value [] k old = old"
| "stored_value (kv # rest) k old = stored_value rest k (if fst kv = k then snd kv else old)"

definition stored_row :: "(jsstring \<times> jsval) list \<Rightarrow> int \<Rightarrow> doc_row \<Rightarrow> doc_row" where
  "stored_row updates t d =
     d\<lparr>doc_title := stored_value updates (js ''title'') (doc_title d),
       is_favorite := stored_value updates (js ''is_favorite'') (is_favorite d),
       is_archived := stored_value updates (js ''is_archived'') (is_archived d),
       updated_at := t\<rparr>"

definition owned_rows :: "jsstring \<Rightarrow> jsstring \<Rightarrow> store \<Rightarrow> doc_row list" where
  "owned_rows documentId userId s =
     filter (\<lambda>d. doc_id d = documentId \<and> user_id d = userId) (documents s)"

definition example_row :: doc_row where
  "example_row =
     \<lparr>doc_id = js ''doc-1'', user_id = js ''user-1'', doc_title = Str (js ''Q1 Outage''),
      template_type = js ''rca'', file_path = js ''/srv/app/stored/f.docx'',
      content_preview = [], original_sections = JObject [], parsed_sections = JObject [],
      metadata = JObject [], file_size = 3, file_format = js ''docx'',
      is_favorite = Bool False, is_archived = Bool False, created_at = 0, updated_at = 0\<rparr>"

definition example_store :: store where
  "example_store = empty_store\<lparr>documents := [example_row]\<rparr>"

text \<open>
  The tag names stored for a document, in row order, the tag rows of all other documents,
  and the list of tags a request gives.
\<close>

definition tag_names :: "jsstring \<Rightarrow> store \<Rightarrow> jsstring list" where
  "tag_names documentId s =
     map tag_name (filter (\<lambda>t. document_id t = documentId) (document_tags s))"

definition other_tags :: "jsstring \<Rightarrow> store \<Rightarrow> tag_row list" where
  "other_tags documentId s = filter (\<lambda>t. document_id t \<noteq> documentId) (document_tags s)"

definition given_tags :: "jsstring list option \<Rightarrow> jsstring list" where
  "given_tags tags = (case tags of None \<Rightarrow> [] | Some ts \<Rightarrow> ts)"



text \<open>
  A store has no orphan tag rows when every tag row names the id of a document row. The
  requests that change the store are those of the routes of the service: \<open>serve\<close> gives
  the store a request leaves, whatever its outcome.
\<close>

definition no_orphan_tags :: "store \<Rightarrow> bool" where
  "no_orphan_tags s \<longleftrightarrow>
     list_all (\<lambda>t. document_id t \<in> doc_id ` set (documents s)) (document_tags s)"

datatype request =
    Save jsstring documentData "8 word list"
  | Get jsstring jsstring
  | Delete jsstring jsstring
  | Update jsstring jsstring "(jsstring \<times> jsval) list"
  | AddTags jsstring jsstring "jsstring list option"
  | Batch jsstring jsstring "(jsstring \<times> jsval) list" "jsstring list"

fun serve :: "env \<Rightarrow> jsstring \<Rightarrow> request \<Rightarrow> store \<Rightarrow> store" where
  "serve e baseStoragePath (Save userEmail documentData fileBuffer) s =
     snd (saveDocument e baseStoragePath userEmail documentData fileBuffer s)"
| "serve e baseStoragePath (Get documentId userId) s = snd (getDocument e documentId userId s)"
| "serve e baseStoragePath (Delete documentId userId) s = snd (deleteDocument e documentId userId s)"
| "serve e baseStoragePath (Update documentId userId updates) s =
     snd (updateDocument e documentId userId updates s)"
| "serve e baseStoragePath (AddTags documentId userId tags) s =
     snd (addDocumentTags e documentId userId tags s)"
| "serve e baseStoragePath (Batch userId action data documentIds) s =
     snd (batch e userId action data documentIds s)"

definition serveAll :: "env \<Rightarrow> jsstring \<Rightarrow> request list \<Rightarrow> store \<Rightarrow> store" where
  "serveAll e baseStoragePath requests s = foldl (\<lambda>s' r. serve e baseStoragePath r s') s requests"

text \<open>
  The document id of an entry of the batch results, and a store with the documents of
  two owners.
\<close>

fun entry_id :: "batch_entry \<Rightarrow> jsstring" where
  "entry_id (ItemSuccess documentId result) = documentId"
| "entry_id (ItemFailure documentId msg) = documentId"

definition two_owner_store :: store where
  "two_owner_store =
     empty_store\<lparr>documents :=
       [example_row\<lparr>doc_id := js ''doc-2'', user_id := js ''user-2''\<rparr>, example_row]\<rparr>"

text \<open>The storage root, as the constructor of the service sets it.\<close>

definition constructor_baseStoragePath :: "jsstring \<Rightarrow> jsstring" where
  \<comment> \<open>the constructor's \<open>path.join(__dirname, '..', 'stored')\<close>\<close>
  "constructor_baseStoragePath dirname = path_join [dirname, js ''..'', js ''stored'']"

text \<open>
  The form of placeholder the specification names: a section name followed by
  \<open>not properly parsed\<close>.
\<close>

definition placeholder_form :: "jsstring \<Rightarrow> bool" where
  "placeholder_form s \<longleftrightarrow>
     length (js '' not properly parsed'') < length s \<and>
     drop (length s - length (js '' not properly parsed'')) s = js '' not properly parsed''"


section \<open>Properties of the section parser\<close>

lemma trim_Nil [simp]: "trim [] = []" by (simp add: trim_def)

lemma truthy_trim_eq: "i < length parts \<Longrightarrow> truthy_trim parts i = trim (parts ! i)"
  by (simp add: truthy_trim_def)

lemma length_ge5E:
  assumes "5 \<le> length xs"
  obtains a b c d e r where "xs = a # b # c # d # e # r"
proof -
  from assms obtain a r1 where 1: "xs = a # r1" by (cases xs) auto
  with assms obtain b r2 where 2: "r1 = b # r2" by (cases r1) auto
  with 1 assms obtain c r3 where 3: "r2 = c # r3" by (cases r2) auto
  with 1 2 assms obtain d r4 where 4: "r3 = d # r4" by (cases r3) auto
  with 1 2 3 assms obtain e r5 where 5: "r4 = e # r5" by (cases r4) auto
  with 1 2 3 4 that show thesis by simp
qed

lemma length_ge6E:
  assumes "6 \<le> length xs"
  obtains a b c d e f r where "xs = a # b # c # d # e # f # r"
proof -
  from assms have "5 \<le> length xs" by simp
  then obtain a b c d e r5 where 1: "xs = a # b # c # d # e # r5" by (rule length_ge5E)
  with assms obtain f r where "r5 = f # r" by (cases r5) auto
  with 1 that show thesis by simp
qed

lemma length_parseStepByStepResponse: "length (parseStepByStepResponse c) = 5"
  by (simp add: parseStepByStepResponse_def Let_def)

lemma length_parseAIResponse: "length (parseAIResponse c) = 6"
  by (simp add: parseAIResponse_def Let_def)

lemma guide_strict:
  assumes "5 \<le> length (split (js ''---'') c)"
  shows "parseStepByStepResponse c = zip guide_keys (map trim (take 5 (split (js ''---'') c)))"
proof -
  from assms obtain p0 p1 p2 p3 p4 r where "split (js ''---'') c = p0 # p1 # p2 # p3 # p4 # r"
    by (rule length_ge5E)
  then show ?thesis
    by (auto simp: parseStepByStepResponse_def guide_keys_def truthy_trim_def Let_def)
qed

lemma report_strict:
  assumes "6 \<le> length (split (js ''---'') c)"
  shows "parseAIResponse c = zip report_keys (map trim (take 6 (split (js ''---'') c)))"
proof -
  from assms obtain p0 p1 p2 p3 p4 p5 r where "split (js ''---'') c = p0 # p1 # p2 # p3 # p4 # p5 # r"
    by (rule length_ge6E)
  then show ?thesis
    by (auto simp: parseAIResponse_def report_keys_def truthy_trim_def Let_def)
qed

lemma strict_iff:
  "(parseSections template content =
      zip (sectionKeys template)
        (map trim (take (requiredCount template) (split (js ''---'') content))))
   \<longleftrightarrow> requiredCount template \<le> length (split (js ''---'') content)"
proof (cases "requiredCount template \<le> length (split (js ''---'') content)")
  case True
  then show ?thesis
    by (auto simp: parseSections_def sectionKeys_def requiredCount_def guide_strict report_strict
        split: if_splits)
next
  case False
  have "length (parseSections template content) = requiredCount template"
    by (simp add: parseSections_def requiredCount_def length_parseStepByStepResponse
        length_parseAIResponse)
  moreover from False have "length (zip (sectionKeys template)
        (map trim (take (requiredCount template) (split (js ''---'') content)))) < requiredCount template"
    by simp
  ultimately show ?thesis using False by auto
qed

text \<open>
  Claim C1, as the code has it. For every template and raw text, the strict split is
  used exactly when splitting on the delimiter \<open>---\<close> gives at least as many
  parts as the template requires (6 for the report shape, 5 for the guide shape); the
  i-th key then receives the trimmed i-th part and the parts beyond the required count
  are ignored. In particular a text with exactly N-1 delimiters is assigned part by part.
\<close>

theorem strict_split_when_enough_parts:
  "((parseSections template content =
      zip (sectionKeys template)
        (map trim (take (requiredCount template) (split (js ''---'') content))))
    \<longleftrightarrow> requiredCount template \<le> length (split (js ''---'') content)) \<and>
   (length (split (js ''---'') content) = requiredCount template \<longrightarrow>
      parseSections template content =
        zip (sectionKeys template) (map trim (split (js ''---'') content))) \<and>
   (\<forall>i < requiredCount template.
      requiredCount template \<le> length (split (js ''---'') content) \<longrightarrow>
      parseSections template content ! i =
        (sectionKeys template ! i, trim (split (js ''---'') content ! i)))"
proof (intro conjI allI impI)
  show "(parseSections template content =
      zip (sectionKeys template)
        (map trim (take (requiredCount template) (split (js ''---'') content))))
    \<longleftrightarrow> requiredCount template \<le> length (split (js ''---'') content)"
    by (rule strict_iff)
next
  assume eq: "length (split (js ''---'') content) = requiredCount template"
  then have "requiredCount template \<le> length (split (js ''---'') content)" by simp
  then have "parseSections template content =
      zip (sectionKeys template)
        (map trim (take (requiredCount template) (split (js ''---'') content)))"
    by (simp only: strict_iff)
  with eq show "parseSections template content =
        zip (sectionKeys template) (map trim (split (js ''---'') content))"
    by simp
next
  fix i
  assume i: "i < requiredCount template"
    and le: "requiredCount template \<le> length (split (js ''---'') content)"
  from le have *: "parseSections template content =
      zip (sectionKeys template)
        (map trim (take (requiredCount template) (split (js ''---'') content)))"
    by (simp only: strict_iff)
  have "length (sectionKeys template) = requiredCount template"
    by (simp add: sectionKeys_def requiredCount_def guide_keys_def report_keys_def)
  with i le show "parseSections template content ! i =
        (sectionKeys template ! i, trim (split (js ''---'') content ! i))"
    unfolding * by simp
qed

lemma split7: "split (js ''---'') (js ''a---b---c---d---e---f---g'') =
    [js ''a'', js ''b'', js ''c'', js ''d'', js ''e'', js ''f'', js ''g'']"
  by (simp add: js_def split.simps)

theorem strict_split_when_enough_parts_witness:
  "requiredCount (js ''rca'') \<le> length (split (js ''---'') (js ''a---b---c---d---e---f---g'')) \<and>
   parseSections (js ''rca'') (js ''a---b---c---d---e---f---g'') =
     [(''initial_findings'', js ''a''), (''executive_summary'', js ''b''),
      (''timeline_events'', js ''c''), (''risk_impact'', js ''d''),
      (''resolution_actions'', js ''e''), (''lessons_learned'', js ''f'')]"
proof -
  have le: "requiredCount (js ''rca'') \<le>
      length (split (js ''---'') (js ''a---b---c---d---e---f---g''))"
    by (simp add: split7 requiredCount_def)
  have "parseSections (js ''rca'') (js ''a---b---c---d---e---f---g'') =
      zip (sectionKeys (js ''rca''))
        (map trim (take (requiredCount (js ''rca''))
          (split (js ''---'') (js ''a---b---c---d---e---f---g''))))"
    using strict_split_when_enough_parts [of "js ''rca''" "js ''a---b---c---d---e---f---g''"] le
    by blast
  also have "\<dots> = [(''initial_findings'', js ''a''), (''executive_summary'', js ''b''),
      (''timeline_events'', js ''c''), (''risk_impact'', js ''d''),
      (''resolution_actions'', js ''e''), (''lessons_learned'', js ''f'')]"
    by (simp add: split7 requiredCount_def sectionKeys_def report_keys_def)
      (simp add: js_def trim_def isWhiteSpace_def)
  finally show ?thesis using le by simp
qed

text \<open>
  Claim C1 as stated asks for exactly the required count. A text of seven parts is
  still parsed by the strict split: the first six parts are assigned and the seventh
  is dropped.
\<close>

theorem strict_split_exact_count_counterexample:
  "length (split (js ''---'') (js ''a---b---c---d---e---f---g'')) = 7 \<and>
   parseAIResponse (js ''a---b---c---d---e---f---g'') =
     [(''initial_findings'', js ''a''), (''executive_summary'', js ''b''),
      (''timeline_events'', js ''c''), (''risk_impact'', js ''d''),
      (''resolution_actions'', js ''e''), (''lessons_learned'', js ''f'')]"
  by (simp add: parseAIResponse_def split7 truthy_trim_def)
    (simp add: js_def trim_def isWhiteSpace_def)

lemma or_empty_paragraphs:
  "i < length (paragraphs c) \<Longrightarrow> or_empty (paragraphs c) i = paragraphs c ! i"
  by (simp add: or_empty_def)

lemma report_paragraphs:
  assumes "length (split (js ''---'') c) < 6" and "6 \<le> length (paragraphs c)"
  shows "parseAIResponse c = zip report_keys (take 6 (paragraphs c))"
proof -
  from assms(2) obtain p0 p1 p2 p3 p4 p5 r where ps: "paragraphs c = p0 # p1 # p2 # p3 # p4 # p5 # r"
    by (rule length_ge6E)
  have "\<forall>i<6. or_empty (paragraphs c) i = paragraphs c ! i"
    using assms(2) by (simp add: or_empty_paragraphs)
  then have "or_empty (paragraphs c) 0 = p0" "or_empty (paragraphs c) 1 = p1"
    "or_empty (paragraphs c) 2 = p2" "or_empty (paragraphs c) 3 = p3"
    "or_empty (paragraphs c) 4 = p4" "or_empty (paragraphs c) 5 = p5"
    using ps by (simp_all add: or_empty_def)
  with assms(1) ps show ?thesis
    by (simp add: parseAIResponse_def report_keys_def Let_def)
qed

lemma report_total:
  assumes "length (split (js ''---'') c) < 6" and "length (paragraphs c) < 6"
  shows "parseAIResponse c =
     [(''initial_findings'', c),
      (''executive_summary'', js ''Executive summary not properly parsed''),
      (''timeline_events'', js ''Timeline not properly parsed''),
      (''risk_impact'', js ''Risk assessment not properly parsed''),
      (''resolution_actions'', js ''Resolution actions not properly parsed''),
      (''lessons_learned'', js ''Lessons learned not properly parsed'')]"
  using assms by (simp add: parseAIResponse_def Let_def)

lemma guide_total:
  assumes "length (split (js ''---'') c) < 5"
  shows "parseStepByStepResponse c =
     [(''guide_overview'', c),
      (''target_audience'', js ''General users''),
      (''prerequisites'', js ''No specific prerequisites''),
      (''steps_content'', js ''Steps not properly parsed''),
      (''conclusion'', js ''Conclusion not available'')]"
  using assms by (simp add: parseStepByStepResponse_def Let_def)

lemma split_dashes_Nil: "split (js ''---'') [] = [[]]"
  by (simp add: split.simps js_def)

lemma paragraphs_Nil: "paragraphs [] = []"
  by (simp add: paragraphs_def split.simps)

text \<open>
  Claim C2, as the code has it. For a template other than the guide, when the split on
  the delimiter gives fewer than 6 parts and there are fewer than 6 non-blank
  paragraphs, the entire raw text goes to the first key and each of the other five keys
  gets its fixed placeholder of the form "<Section name> not properly parsed". For the
  guide, when the split gives fewer than 5 parts, the entire raw text goes to the first
  key and the other four keys get the guide parser's own fixed strings. The empty
  string meets both conditions.
\<close>

theorem total_fallback:
  "(template \<noteq> js ''step-by-step-guide'' \<longrightarrow>
      length (split (js ''---'') content) < 6 \<longrightarrow> length (paragraphs content) < 6 \<longrightarrow>
      parseSections template content =
        [(''initial_findings'', content),
         (''executive_summary'', js ''Executive summary not properly parsed''),
         (''timeline_events'', js ''Timeline not properly parsed''),
         (''risk_impact'', js ''Risk assessment not properly parsed''),
         (''resolution_actions'', js ''Resolution actions not properly parsed''),
         (''lessons_learned'', js ''Lessons learned not properly parsed'')]) \<and>
   (template = js ''step-by-step-guide'' \<longrightarrow>
      length (split (js ''---'') content) < 5 \<longrightarrow>
      parseSections template content =
        [(''guide_overview'', content),
         (''target_audience'', js ''General users''),
         (''prerequisites'', js ''No specific prerequisites''),
         (''steps_content'', js ''Steps not properly parsed''),
         (''conclusion'', js ''Conclusion not available'')]) \<and>
   list_all placeholder_form
     [js ''Executive summary not properly parsed'', js ''Timeline not properly parsed'',
      js ''Risk assessment not properly parsed'', js ''Resolution actions not properly parsed'',
      js ''Lessons learned not properly parsed''] \<and>
   length (split (js ''---'') []) = 1 \<and> length (paragraphs []) = 0"
proof (intro conjI impI)
  show "list_all placeholder_form
     [js ''Executive summary not properly parsed'', js ''Timeline not properly parsed'',
      js ''Risk assessment not properly parsed'', js ''Resolution actions not properly parsed'',
      js ''Lessons learned not properly parsed'']"
    by (simp add: placeholder_form_def js_def)
qed (simp_all add: parseSections_def report_total guide_total split_dashes_Nil paragraphs_Nil)

theorem total_fallback_witness:
  "parseSections (js ''rca'') [] =
     [(''initial_findings'', []),
      (''executive_summary'', js ''Executive summary not properly parsed''),
      (''timeline_events'', js ''Timeline not properly parsed''),
      (''risk_impact'', js ''Risk assessment not properly parsed''),
      (''resolution_actions'', js ''Resolution actions not properly parsed''),
      (''lessons_learned'', js ''Lessons learned not properly parsed'')] \<and>
   parseSections (js ''step-by-step-guide'') (js ''one---two'') =
     [(''guide_overview'', js ''one---two''),
      (''target_audience'', js ''General users''),
      (''prerequisites'', js ''No specific prerequisites''),
      (''steps_content'', js ''Steps not properly parsed''),
      (''conclusion'', js ''Conclusion not available'')]"
proof -
  have 1: "js ''rca'' \<noteq> js ''step-by-step-guide''" by (simp add: js_def)
  have 2: "length (split (js ''---'') (js ''one---two'')) < 5"
    by (simp add: split.simps js_def)
  show ?thesis
    using total_fallback [of "js ''rca''" "[]"]
      total_fallback [of "js ''step-by-step-guide''" "js ''one---two''"] 1 2
    by simp
qed

text \<open>
  Claim C2 as stated fails for the guide shape: on the empty string, which meets neither
  the strict-split nor the paragraph condition, three of the four remaining keys get a
  fixed string that is not of the form "<Section name> not properly parsed".
\<close>

theorem guide_placeholders_counterexample:
  "length (split (js ''---'') []) = 1 \<and> length (paragraphs []) = 0 \<and>
   parseSections (js ''step-by-step-guide'') [] =
     [(''guide_overview'', []),
      (''target_audience'', js ''General users''),
      (''prerequisites'', js ''No specific prerequisites''),
      (''steps_content'', js ''Steps not properly parsed''),
      (''conclusion'', js ''Conclusion not available'')] \<and>
   \<not> placeholder_form (js ''General users'') \<and>
   \<not> placeholder_form (js ''No specific prerequisites'') \<and>
   \<not> placeholder_form (js ''Conclusion not available'')"
proof -
  have "parseSections (js ''step-by-step-guide'') [] = parseStepByStepResponse []"
    by (simp add: parseSections_def)
  moreover have "\<not> placeholder_form (js ''General users'')"
    "\<not> placeholder_form (js ''No specific prerequisites'')"
    "\<not> placeholder_form (js ''Conclusion not available'')"
    by (simp_all add: placeholder_form_def js_def)
  ultimately show ?thesis
    by (simp add: guide_total split_dashes_Nil paragraphs_Nil)
qed

text \<open>
  Claim C3, as the code has it. For a template other than the guide, when the split on
  the delimiter gives fewer than 6 parts and the raw text has at least 6 non-blank
  paragraphs, the first 6 paragraphs are assigned to the 6 keys in order and the surplus
  is ignored. The guide parser has no paragraph tier: with fewer than 5 parts it takes
  the total fallback, whatever the number of paragraphs. Both parsers are total
  functions, so neither raises.
\<close>

theorem paragraph_fallback:
  "(template \<noteq> js ''step-by-step-guide'' \<longrightarrow>
      length (split (js ''---'') content) < 6 \<longrightarrow> 6 \<le> length (paragraphs content) \<longrightarrow>
      parseSections template content = zip report_keys (take 6 (paragraphs content))) \<and>
   (template = js ''step-by-step-guide'' \<longrightarrow>
      length (split (js ''---'') content) < 5 \<longrightarrow>
      parseSections template content =
        [(''guide_overview'', content),
         (''target_audience'', js ''General users''),
         (''prerequisites'', js ''No specific prerequisites''),
         (''steps_content'', js ''Steps not properly parsed''),
         (''conclusion'', js ''Conclusion not available'')])"
  by (simp add: parseSections_def report_paragraphs guide_total)

lemma paragraphs7:
  "paragraphs (js ''a\<newline>\<newline>b\<newline>\<newline>c\<newline>\<newline>d\<newline>\<newline>e\<newline>\<newline>f\<newline>\<newline>g'') =
     [js ''a'', js ''b'', js ''c'', js ''d'', js ''e'', js ''f'', js ''g'']"
  by (simp add: paragraphs_def split.simps js_def trim_def isWhiteSpace_def)

lemma paragraphs5:
  "paragraphs (js ''a\<newline>\<newline>b\<newline>\<newline>c\<newline>\<newline>d\<newline>\<newline>e'') =
     [js ''a'', js ''b'', js ''c'', js ''d'', js ''e'']"
  by (simp add: paragraphs_def split.simps js_def trim_def isWhiteSpace_def)

theorem paragraph_fallback_witness:
  "parseSections (js ''rca'')
     (js ''a\<newline>\<newline>b\<newline>\<newline>c\<newline>\<newline>d\<newline>\<newline>e\<newline>\<newline>f\<newline>\<newline>g'') =
     [(''initial_findings'', js ''a''), (''executive_summary'', js ''b''),
      (''timeline_events'', js ''c''), (''risk_impact'', js ''d''),
      (''resolution_actions'', js ''e''), (''lessons_learned'', js ''f'')] \<and>
   parseSections (js ''step-by-step-guide'') (js ''one---two'') =
     [(''guide_overview'', js ''one---two''),
      (''target_audience'', js ''General users''),
      (''prerequisites'', js ''No specific prerequisites''),
      (''steps_content'', js ''Steps not properly parsed''),
      (''conclusion'', js ''Conclusion not available'')]"
proof -
  have 1: "js ''rca'' \<noteq> js ''step-by-step-guide''" by (simp add: js_def)
  have 2: "length (split (js ''---'')
      (js ''a\<newline>\<newline>b\<newline>\<newline>c\<newline>\<newline>d\<newline>\<newline>e\<newline>\<newline>f\<newline>\<newline>g'')) < 6"
    by (simp add: split.simps js_def)
  have 3: "length (split (js ''---'') (js ''one---two'')) < 5"
    by (simp add: split.simps js_def)
  show ?thesis
    using paragraph_fallback [of "js ''rca''"
        "js ''a\<newline>\<newline>b\<newline>\<newline>c\<newline>\<newline>d\<newline>\<newline>e\<newline>\<newline>f\<newline>\<newline>g''"]
      paragraph_fallback [of "js ''step-by-step-guide''" "js ''one---two''"] 1 2 3
    by (simp add: paragraphs7 report_keys_def)
qed

text \<open>
  Claim C3 as stated fails for the guide shape: a text with no delimiter and five
  paragraphs is not assigned paragraph by paragraph; the whole text goes to the first
  key.
\<close>

theorem guide_paragraphs_counterexample:
  "length (split (js ''---'') (js ''a\<newline>\<newline>b\<newline>\<newline>c\<newline>\<newline>d\<newline>\<newline>e'')) = 1 \<and>
   paragraphs (js ''a\<newline>\<newline>b\<newline>\<newline>c\<newline>\<newline>d\<newline>\<newline>e'') =
     [js ''a'', js ''b'', js ''c'', js ''d'', js ''e''] \<and>
   parseSections (js ''step-by-step-guide'') (js ''a\<newline>\<newline>b\<newline>\<newline>c\<newline>\<newline>d\<newline>\<newline>e'') =
     [(''guide_overview'', js ''a\<newline>\<newline>b\<newline>\<newline>c\<newline>\<newline>d\<newline>\<newline>e''),
      (''target_audience'', js ''General users''),
      (''prerequisites'', js ''No specific prerequisites''),
      (''steps_content'', js ''Steps not properly parsed''),
      (''conclusion'', js ''Conclusion not available'')]"
proof -
  have 1: "split (js ''---'') (js ''a\<newline>\<newline>b\<newline>\<newline>c\<newline>\<newline>d\<newline>\<newline>e'') =
      [js ''a\<newline>\<newline>b\<newline>\<newline>c\<newline>\<newline>d\<newline>\<newline>e'']"
    by (simp add: split.simps js_def)
  then show ?thesis
    by (simp add: parseSections_def guide_total paragraphs5)
qed


section \<open>Properties of the storage paths\<close>

lemma join_Nil [simp]: "join sep [] = []"
  by (simp add: join_def)

lemma join_single [simp]: "join sep [x] = x"
  by (simp add: join_def)

lemma join_Cons2: "join sep (x # y # ys) = x @ sep @ join sep (y # ys)"
  by (simp add: join_def)

lemma join_Cons: "join sep (x # ys) = x @ concat (map (\<lambda>y. sep @ y) ys)"
  by (simp add: join_def)


lemma indexOf_split_none:
  "c \<notin> set x \<Longrightarrow> indexOf_split [c] x = None"
  by (induction x) auto

lemma indexOf_split_found:
  "c \<notin> set x \<Longrightarrow> indexOf_split [c] (x @ c # rest) = Some (x, rest)"
  by (induction x) auto

lemma split_no_sep: "c \<notin> set x \<Longrightarrow> split [c] x = [x]"
  by (simp add: split.simps indexOf_split_none)

lemma split_sep_Cons:
  "c \<notin> set x \<Longrightarrow> split [c] (x @ c # rest) = x # split [c] rest"
  by (subst split.simps) (simp add: indexOf_split_found)

lemma split_join:
  "segs \<noteq> [] \<Longrightarrow> \<forall>seg \<in> set segs. c \<notin> set seg \<Longrightarrow> split [c] (join [c] segs) = segs"
proof (induction segs)
  case Nil
  then show ?case by simp
next
  case (Cons x rest)
  show ?case
  proof (cases rest)
    case Nil
    with Cons.prems show ?thesis by (simp add: split_no_sep)
  next
    case (Cons y ys)
    with Cons.prems Cons.IH show ?thesis
      by (simp add: join_Cons2 split_sep_Cons)
  qed
qed


lemma split_not_Nil: "sep \<noteq> [] \<Longrightarrow> split sep s \<noteq> []"
  by (subst split.simps) (simp split: option.splits)





lemma slash_js: "js ''/'' = [0x2F]"
  by (simp add: js_def)



lemma isNormalizedRoot_join:
  assumes "segs \<noteq> []" and "list_all isPlainSegment segs"
  shows "isNormalizedRoot (0x2F # join (js ''/'') segs)"
proof -
  from assms have "\<forall>seg \<in> set segs. 0x2F \<notin> set seg"
    by (auto simp: list_all_iff isPlainSegment_def)
  with assms(1) have "split (js ''/'') (join (js ''/'') segs) = segs"
    by (simp only: slash_js) (simp add: split_join)
  with assms(2) show ?thesis by (simp add: isNormalizedRoot_def)
qed























section \<open>Properties of saveDocument\<close>

lemmas monad_defs = andThen_def tryCatch_def tryFinally_def succeed_def throw_def modify_def
  io_def missing_file_def execute_def crypto_randomUUID_def

lemmas saveDocument_defs = saveDocument_def generateDocumentPath_def writeFile_def stat_size_def
    insertDocument_def logDocumentGeneration_def

lemma saveDocument_steps:
  assumes "saveDocument e base userEmail documentData fileBuffer s = (r, s')"
  shows "saveSteps s s' \<in>
      {[], [(FileWrite, False)], [(FileWrite, True)],
       [(FileWrite, True), (MetadataInsert, False)],
       [(FileWrite, True), (MetadataInsert, True), (LogAppend, False)],
       [(FileWrite, True), (MetadataInsert, True), (LogAppend, True)]}"
  using assms unfolding saveDocument_defs saveSteps_def
  by (auto simp: monad_defs Let_def List.map_filter_simps split: option.splits if_splits)

lemma saveDocument_trace:
  assumes "saveDocument e base userEmail documentData fileBuffer s = (r, s')"
  shows "take (length (trace s)) (trace s') = trace s"
  using assms unfolding saveDocument_defs
  by (auto simp: monad_defs Let_def split: option.splits if_splits)

lemma saveDocument_write_fails:
  assumes "saveDocument e base userEmail documentData fileBuffer s = (r, s')"
    and "(FileWrite, False) \<in> set (saveSteps s s')"
  shows "isl r \<and> documents s' = documents s \<and> ai_generation_logs s' = ai_generation_logs s \<and>
         files s' = files s"
  using assms unfolding saveDocument_defs saveSteps_def
  by (auto simp: monad_defs Let_def List.map_filter_simps split: option.splits if_splits)

lemma saveDocument_row_has_file:
  assumes "saveDocument e base userEmail documentData fileBuffer s = (r, s')"
  shows "documents s' = documents s \<or>
     (\<exists>row. documents s' = documents s @ [row] \<and>
        map_of (files s') (file_path row) = Some fileBuffer \<and>
        file_size row = length fileBuffer \<and>
        take 2 (saveSteps s s') = [(FileWrite, True), (MetadataInsert, True)])"
  using assms unfolding saveDocument_defs saveSteps_def
  by (auto simp: monad_defs Let_def List.map_filter_simps split: option.splits if_splits)

lemma saveDocument_success:
  assumes "saveDocument e base userEmail documentData fileBuffer s = (Inr saved, s')"
  shows "take 2 (saveSteps s s') = [(FileWrite, True), (MetadataInsert, True)] \<and>
         length (saveSteps s s') = 3 \<and>
         (\<exists>row. documents s' = documents s @ [row] \<and> doc_id row = saved_id saved \<and>
            file_path row = saved_filePath saved)"
  using assms unfolding saveDocument_defs saveSteps_def
  by (auto simp: monad_defs Let_def List.map_filter_simps split: option.splits if_splits)

text \<open>
  Claim C5. Within one call of \<open>saveDocument\<close> the file write, the insert of the metadata
  row and the append of the generation log are made in this order, each at most once and
  each only after the one before it succeeded. If the file write fails, the call raises
  and leaves the tables \<open>documents\<close> and \<open>ai_generation_logs\<close> as they were. A call
  adds at most one metadata row, and only with its file written; a call that returns
  made the write and the insert, both with success.
\<close>

theorem saveDocument_order:
  assumes "saveDocument e baseStoragePath userEmail documentData fileBuffer s = (r, s')"
  shows "take (length (trace s)) (trace s') = trace s \<and>
     saveSteps s s' \<in>
       {[], [(FileWrite, False)], [(FileWrite, True)],
        [(FileWrite, True), (MetadataInsert, False)],
        [(FileWrite, True), (MetadataInsert, True), (LogAppend, False)],
        [(FileWrite, True), (MetadataInsert, True), (LogAppend, True)]} \<and>
     ((FileWrite, False) \<in> set (saveSteps s s') \<longrightarrow>
        isl r \<and> documents s' = documents s \<and> ai_generation_logs s' = ai_generation_logs s) \<and>
     (documents s' = documents s \<or>
        (\<exists>row. documents s' = documents s @ [row] \<and>
           map_of (files s') (file_path row) = Some fileBuffer \<and>
           take 2 (saveSteps s s') = [(FileWrite, True), (MetadataInsert, True)])) \<and>
     (\<not> isl r \<longrightarrow>
        take 2 (saveSteps s s') = [(FileWrite, True), (MetadataInsert, True)] \<and>
        length (saveSteps s s') = 3 \<and> length (documents s') = Suc (length (documents s)))"
proof (intro conjI impI)
  show "take (length (trace s)) (trace s') = trace s"
    using assms by (rule saveDocument_trace)
  show "saveSteps s s' \<in>
       {[], [(FileWrite, False)], [(FileWrite, True)],
        [(FileWrite, True), (MetadataInsert, False)],
        [(FileWrite, True), (MetadataInsert, True), (LogAppend, False)],
        [(FileWrite, True), (MetadataInsert, True), (LogAppend, True)]}"
    using assms by (rule saveDocument_steps)
  show "documents s' = documents s \<or>
        (\<exists>row. documents s' = documents s @ [row] \<and>
           map_of (files s') (file_path row) = Some fileBuffer \<and>
           take 2 (saveSteps s s') = [(FileWrite, True), (MetadataInsert, True)])"
    using saveDocument_row_has_file [OF assms] by blast
next
  assume "(FileWrite, False) \<in> set (saveSteps s s')"
  with assms have *: "isl r \<and> documents s' = documents s \<and>
      ai_generation_logs s' = ai_generation_logs s \<and> files s' = files s"
    by (rule saveDocument_write_fails)
  from * show "isl r" by simp
  from * show "documents s' = documents s" by simp
  from * show "ai_generation_logs s' = ai_generation_logs s" by simp
next
  assume "\<not> isl r"
  then obtain saved where "r = Inr saved" by (cases r) auto
  with assms have *: "take 2 (saveSteps s s') = [(FileWrite, True), (MetadataInsert, True)] \<and>
         length (saveSteps s s') = 3 \<and>
         (\<exists>row. documents s' = documents s @ [row] \<and> doc_id row = saved_id saved \<and>
            file_path row = saved_filePath saved)"
    by (simp add: saveDocument_success)
  from * show "take 2 (saveSteps s s') = [(FileWrite, True), (MetadataInsert, True)]" by simp
  from * show "length (saveSteps s s') = 3" by simp
  from * show "length (documents s') = Suc (length (documents s))" by auto
qed

lemma example_save_write_fault:
  "saveSteps empty_store
     (snd (saveDocument write_fault (js ''/srv/app/stored'') (js ''alice@example.com'')
        example_data [1, 2, 3] empty_store)) = [(FileWrite, False)]"
  unfolding saveDocument_defs saveSteps_def
  by (simp add: monad_defs Let_def List.map_filter_simps write_fault_def no_faults_def
      empty_store_def)

lemma example_save_no_faults:
  "saveSteps empty_store
     (snd (saveDocument no_faults (js ''/srv/app/stored'') (js ''alice@example.com'')
        example_data [1, 2, 3] empty_store)) =
     [(FileWrite, True), (MetadataInsert, True), (LogAppend, True)] \<and>
   \<not> isl (fst (saveDocument no_faults (js ''/srv/app/stored'') (js ''alice@example.com'')
        example_data [1, 2, 3] empty_store))"
  unfolding saveDocument_defs saveSteps_def
  by (simp add: monad_defs Let_def List.map_filter_simps no_faults_def empty_store_def)

theorem saveDocument_order_witness:
  "saveSteps empty_store
     (snd (saveDocument write_fault (js ''/srv/app/stored'') (js ''alice@example.com'')
        example_data [1, 2, 3] empty_store)) = [(FileWrite, False)] \<and>
   isl (fst (saveDocument write_fault (js ''/srv/app/stored'') (js ''alice@example.com'')
        example_data [1, 2, 3] empty_store)) \<and>
   documents (snd (saveDocument write_fault (js ''/srv/app/stored'') (js ''alice@example.com'')
        example_data [1, 2, 3] empty_store)) = [] \<and>
   ai_generation_logs (snd (saveDocument write_fault (js ''/srv/app/stored'') (js ''alice@example.com'')
        example_data [1, 2, 3] empty_store)) = [] \<and>
   saveSteps empty_store
     (snd (saveDocument no_faults (js ''/srv/app/stored'') (js ''alice@example.com'')
        example_data [1, 2, 3] empty_store)) =
     [(FileWrite, True), (MetadataInsert, True), (LogAppend, True)] \<and>
   length (documents (snd (saveDocument no_faults (js ''/srv/app/stored'') (js ''alice@example.com'')
        example_data [1, 2, 3] empty_store))) = 1"
proof -
  let ?f = "saveDocument write_fault (js ''/srv/app/stored'') (js ''alice@example.com'')
        example_data [1, 2, 3] empty_store"
  let ?g = "saveDocument no_faults (js ''/srv/app/stored'') (js ''alice@example.com'')
        example_data [1, 2, 3] empty_store"
  have f: "?f = (fst ?f, snd ?f)" and g: "?g = (fst ?g, snd ?g)" by simp_all
  have e: "documents empty_store = []" "ai_generation_logs empty_store = []"
    by (simp_all add: empty_store_def)
  from saveDocument_order [OF f] example_save_write_fault e
  have 1: "isl (fst ?f) \<and> documents (snd ?f) = [] \<and> ai_generation_logs (snd ?f) = []"
    by simp
  from saveDocument_order [OF g] example_save_no_faults e
  have 2: "length (documents (snd ?g)) = 1" by simp
  from 1 2 example_save_write_fault example_save_no_faults show ?thesis by simp
qed

section \<open>Properties of updateDocument\<close>

lemma setColumn_immutable [simp]: "immutable_columns (setColumn kv d) = immutable_columns d"
  by (simp add: setColumn_def immutable_columns_def)

lemma fold_setColumn_immutable [simp]:
  "immutable_columns (fold setColumn updateFields d) = immutable_columns d"
  by (induction updateFields arbitrary: d) simp_all

lemma fold_setColumn_keys [simp]:
  "doc_id (fold setColumn updateFields d) = doc_id d" "user_id (fold setColumn updateFields d) = user_id d"
  using fold_setColumn_immutable [of updateFields d] by (simp_all add: immutable_columns_def)

lemma updated_at_immutable [simp]:
  "immutable_columns (d\<lparr>updated_at := t\<rparr>) = immutable_columns d"
  by (simp add: immutable_columns_def)

lemma updateRows_immutable:
  "map immutable_columns (documents (updateRows e documentId userId updateFields s)) =
   map immutable_columns (documents s)"
  by (simp add: updateRows_def comp_def if_distrib [of immutable_columns] cong: if_cong)

lemma updateRows_other [simp]:
  "document_tags (updateRows e documentId userId updateFields s) = document_tags s"
  "files (updateRows e documentId userId updateFields s) = files s"
  "ai_generation_logs (updateRows e documentId userId updateFields s) = ai_generation_logs s"
  "tick (updateRows e documentId userId updateFields s) = tick s"
  "trace (updateRows e documentId userId updateFields s) = trace s"
  by (simp_all add: updateRows_def)

lemma getDocument_unchanged:
  assumes "getDocument e documentId userId s = (r, s')"
  shows "documents s' = documents s \<and> document_tags s' = document_tags s \<and> files s' = files s \<and>
         ai_generation_logs s' = ai_generation_logs s"
  using assms unfolding getDocument_def
  by (auto simp: monad_defs split: option.splits list.splits)

lemma getDocument_not_NoValidUpdates:
  "getDocument e documentId userId s = (r, s') \<Longrightarrow> r \<noteq> Inl NoValidUpdates"
  unfolding getDocument_def
  by (auto simp: monad_defs split: option.splits list.splits)

lemma updateDocument_filter:
  "updateDocument e documentId userId updates =
   updateDocument e documentId userId (allowedFields updates)"
  by (simp add: updateDocument_def allowedFields_def)

lemma updateDocument_immutable:
  assumes "updateDocument e documentId userId updates s = (r, s')"
  shows "map immutable_columns (documents s') = map immutable_columns (documents s) \<and>
         document_tags s' = document_tags s \<and> files s' = files s \<and>
         ai_generation_logs s' = ai_generation_logs s"
proof -
  have g: "\<And>s0 r0 s1. getDocument e documentId userId s0 = (r0, s1) \<Longrightarrow>
      documents s1 = documents s0 \<and> document_tags s1 = document_tags s0 \<and> files s1 = files s0 \<and>
      ai_generation_logs s1 = ai_generation_logs s0"
    by (rule getDocument_unchanged)
  show ?thesis
    using assms unfolding updateDocument_def
    by (auto simp: monad_defs Let_def updateRows_immutable split: option.splits if_splits prod.splits sum.splits
        dest!: g)
qed

lemma getDocument_Inr:
  assumes "getDocument e documentId userId s = (Inr (d, tags), s')"
  shows "\<exists>rest. owned_rows documentId userId s = d # rest \<and>
           tags = tagsOf (d # rest) (document_tags s)"
  using assms unfolding getDocument_def owned_rows_def
  by (auto simp: monad_defs split: option.splits list.splits)

lemma filter_map_if:
  assumes "\<And>d. P d \<Longrightarrow> P (g d)"
  shows "filter P (map (\<lambda>d. if P d then g d else d) xs) = map g (filter P xs)"
  using assms by (induction xs) auto

lemma owned_rows_updateRows:
  "owned_rows documentId userId (updateRows e documentId userId updateFields s) =
   map (\<lambda>d. (fold setColumn updateFields d)\<lparr>updated_at := NOW e s\<rparr>)
     (owned_rows documentId userId s)"
  unfolding owned_rows_def updateRows_def
  by (simp add: filter_map_if [where P = "\<lambda>d. doc_id d = documentId \<and> user_id d = userId"])

lemma updateDocument_NoValidUpdates_only_if:
  assumes "updateDocument e documentId userId updates s = (Inl NoValidUpdates, s')"
  shows "allowedFields updates = []"
proof (rule ccontr)
  assume ne: "allowedFields updates \<noteq> []"
  have g: "\<And>s0 s1. getDocument e documentId userId s0 \<noteq> (Inl NoValidUpdates, s1)"
    using getDocument_not_NoValidUpdates by blast
  from assms ne show False
    unfolding updateDocument_def allowedFields_def
    by (auto simp: monad_defs Let_def g split: option.splits if_splits prod.splits sum.splits)
qed

lemma updateDocument_NoValidUpdates_if:
  assumes "allowedFields updates = []"
    and "io_fault e (tick s) = None" and "io_fault e (Suc (tick s)) = None"
  shows "fst (updateDocument e documentId userId updates s) = Inl NoValidUpdates \<and>
         documents (snd (updateDocument e documentId userId updates s)) = documents s"
  using assms unfolding updateDocument_def allowedFields_def
  by (simp add: monad_defs Let_def)

lemma updateDocument_Inr:
  assumes "updateDocument e documentId userId updates s = (Inr (d, tags), s')"
  shows "allowedFields updates \<noteq> [] \<and>
     (\<exists>d0 rest. owned_rows documentId userId s = d0 # rest \<and>
        d = (fold setColumn (allowedFields updates) d0)
              \<lparr>updated_at := getTime (clock e (tick s + 2))\<rparr>) \<and>
     list_all (\<lambda>row. updated_at row = getTime (clock e (tick s + 2)))
       (owned_rows documentId userId s')"
proof -
  let ?fs = "allowedFields updates"
  define s1 where "s1 = s\<lparr>trace := trace s @ [(CreateConnection, True)], tick := Suc (tick s)\<rparr>"
  define s2 where "s2 = s1\<lparr>trace := trace s1 @ [(UpdateDocument documentId userId, True)],
      tick := Suc (tick s1)\<rparr>"
  define s3 where "s3 = updateRows e documentId userId ?fs s2"
  from assms have ne: "?fs \<noteq> []"
    unfolding updateDocument_def allowedFields_def
    by (auto simp: monad_defs Let_def split: option.splits if_splits prod.splits sum.splits)
  from assms ne obtain s4 where g: "getDocument e documentId userId s3 = (Inr (d, tags), s4)"
    and s': "documents s' = documents s4"
    unfolding updateDocument_def allowedFields_def s3_def s2_def s1_def
    by (auto simp: monad_defs Let_def split: option.splits if_splits prod.splits sum.splits)
  from getDocument_Inr [OF g] obtain rest where r: "owned_rows documentId userId s3 = d # rest"
    by blast
  have now: "NOW e s2 = getTime (clock e (tick s + 2))"
    by (simp add: NOW_def s2_def s1_def)
  have o3: "owned_rows documentId userId s3 =
      map (\<lambda>d. (fold setColumn ?fs d)\<lparr>updated_at := getTime (clock e (tick s + 2))\<rparr>)
        (owned_rows documentId userId s)"
    unfolding s3_def owned_rows_updateRows now
    by (simp add: owned_rows_def s2_def s1_def)
  with r obtain d0 rest0 where "owned_rows documentId userId s = d0 # rest0"
    and "d = (fold setColumn ?fs d0)\<lparr>updated_at := getTime (clock e (tick s + 2))\<rparr>"
    by (cases "owned_rows documentId userId s") auto
  moreover have "documents s4 = documents s3"
    using getDocument_unchanged [OF g] by simp
  with s' have "owned_rows documentId userId s' = owned_rows documentId userId s3"
    by (simp add: owned_rows_def)
  with o3 have "list_all (\<lambda>row. updated_at row = getTime (clock e (tick s + 2)))
       (owned_rows documentId userId s')"
    by (simp add: list_all_iff)
  ultimately show ?thesis using ne by blast
qed

lemma column_names_distinct:
  "js ''title'' \<noteq> js ''is_favorite''" "js ''title'' \<noteq> js ''is_archived''"
  "js ''is_favorite'' \<noteq> js ''is_archived''"
  "js ''is_favorite'' \<noteq> js ''title''" "js ''is_archived'' \<noteq> js ''title''"
  "js ''is_archived'' \<noteq> js ''is_favorite''"
  by (simp_all add: js_def)

lemma fold_setColumn_stored:
  "fold setColumn updateFields d =
     d\<lparr>doc_title := stored_value updateFields (js ''title'') (doc_title d),
       is_favorite := stored_value updateFields (js ''is_favorite'') (is_favorite d),
       is_archived := stored_value updateFields (js ''is_archived'') (is_archived d)\<rparr>"
proof (induction updateFields arbitrary: d)
  case Nil
  show ?case by simp
next
  case (Cons kv rest)
  show ?case
    unfolding fold_simps Cons.IH [of "setColumn kv d"]
    by (simp add: setColumn_def column_names_distinct)
qed

lemma stored_value_allowedFields:
  assumes "k \<in> set allowedUpdates"
  shows "stored_value (allowedFields updates) k old = stored_value updates k old"
  using assms by (induction updates arbitrary: old) (auto simp: allowedFields_def)

lemma stored_value_absent:
  "k \<notin> fst ` set updates \<Longrightarrow> stored_value updates k old = old"
  by (induction updates arbitrary: old) auto

lemma stored_value_member:
  assumes "distinct (map fst updates)" and "(k, v) \<in> set updates"
  shows "stored_value updates k old = v"
  using assms
proof (induction updates arbitrary: old)
  case Nil
  then show ?case by simp
next
  case (Cons kv rest)
  show ?case
  proof (cases "kv = (k, v)")
    case True
    with Cons.prems(1) have "k \<notin> fst ` set rest" by simp
    with True show ?thesis by (simp add: stored_value_absent)
  next
    case False
    with Cons.prems have "(k, v) \<in> set rest" and "distinct (map fst rest)" by simp_all
    then show ?thesis using Cons.IH by simp
  qed
qed

lemma fold_setColumn_stored_row:
  "(fold setColumn (allowedFields updates) d)\<lparr>updated_at := t\<rparr> = stored_row updates t d"
  unfolding fold_setColumn_stored stored_row_def
  by (simp add: stored_value_allowedFields allowedUpdates_def)

lemma updateRows_stored:
  "documents (updateRows e documentId userId (allowedFields updates) s) =
     map (\<lambda>row. if doc_id row = documentId \<and> user_id row = userId
                then stored_row updates (NOW e s) row else row) (documents s)"
  by (simp add: updateRows_def fold_setColumn_stored_row)

lemma updateDocument_documents:
  assumes "updateDocument e documentId userId updates s = (r, s')"
  shows "documents s' = documents s \<and> isl r \<or>
     documents s' =
       map (\<lambda>row. if doc_id row = documentId \<and> user_id row = userId
                then stored_row updates (getTime (clock e (tick s + 2))) row else row)
         (documents s)"
proof -
  have g: "\<And>s0 r0 s1. getDocument e documentId userId s0 = (r0, s1) \<Longrightarrow>
      documents s1 = documents s0"
    using getDocument_unchanged by blast
  have u: "\<And>s0. documents (updateRows e documentId userId
        (filter (\<lambda>kv. fst kv \<in> set allowedUpdates) updates) s0) =
     map (\<lambda>row. if doc_id row = documentId \<and> user_id row = userId
                then stored_row updates (NOW e s0) row else row) (documents s0)"
    using updateRows_stored [of e documentId userId updates] by (simp add: allowedFields_def)
  show ?thesis
    using assms unfolding updateDocument_def
    by (auto simp: monad_defs Let_def u NOW_def
        split: option.splits if_splits prod.splits sum.splits dest!: g)
qed


lemma stored_row_keys [simp]:
  "doc_id (stored_row updates t d) = doc_id d" "user_id (stored_row updates t d) = user_id d"
  by (simp_all add: stored_row_def)

lemma owned_rows_stored:
  assumes "documents s' =
       map (\<lambda>row. if doc_id row = documentId \<and> user_id row = userId
                then stored_row updates t row else row) (documents s)"
  shows "owned_rows documentId userId s' = map (stored_row updates t) (owned_rows documentId userId s)"
  unfolding owned_rows_def assms
  by (simp add: filter_map_if [where P = "\<lambda>d. doc_id d = documentId \<and> user_id d = userId"])

lemma stored_row_columns:
  assumes "distinct (map fst updates)"
  shows "(js ''title'', v) \<in> set updates \<Longrightarrow> doc_title (stored_row updates t d) = v"
    and "(js ''is_favorite'', v) \<in> set updates \<Longrightarrow> is_favorite (stored_row updates t d) = v"
    and "(js ''is_archived'', v) \<in> set updates \<Longrightarrow> is_archived (stored_row updates t d) = v"
  using assms by (simp_all add: stored_row_def stored_value_member)

lemma stored_row_kept:
  shows "js ''title'' \<notin> fst ` set updates \<Longrightarrow> doc_title (stored_row updates t d) = doc_title d"
    and "js ''is_favorite'' \<notin> fst ` set updates \<Longrightarrow>
      is_favorite (stored_row updates t d) = is_favorite d"
    and "js ''is_archived'' \<notin> fst ` set updates \<Longrightarrow>
      is_archived (stored_row updates t d) = is_archived d"
  by (simp_all add: stored_row_def stored_value_absent)

lemma updateDocument_Inr_stored:
  assumes "updateDocument e documentId userId updates s = (Inr (d, tags), s')"
  shows "documents s' =
       map (\<lambda>row. if doc_id row = documentId \<and> user_id row = userId
                then stored_row updates (getTime (clock e (tick s + 2))) row else row)
         (documents s) \<and>
     owned_rows documentId userId s' =
       map (stored_row updates (getTime (clock e (tick s + 2)))) (owned_rows documentId userId s) \<and>
     (\<exists>rest. owned_rows documentId userId s' = d # rest)"
proof -
  let ?t = "getTime (clock e (tick s + 2))"
  from updateDocument_documents [OF assms]
  have 1: "documents s' =
       map (\<lambda>row. if doc_id row = documentId \<and> user_id row = userId
                then stored_row updates ?t row else row) (documents s)"
    by simp
  note 2 = owned_rows_stored [OF 1]
  from updateDocument_Inr [OF assms] obtain d0 rest
    where "owned_rows documentId userId s = d0 # rest"
      and "d = (fold setColumn (allowedFields updates) d0)\<lparr>updated_at := ?t\<rparr>"
    by blast
  with 2 have 3: "owned_rows documentId userId s' = d # map (stored_row updates ?t) rest"
    by (simp add: fold_setColumn_stored_row)
  show ?thesis
  proof (intro conjI)
    show "\<exists>rest. owned_rows documentId userId s' = d # rest" using 3 by (rule exI)
  qed (fact 1, fact 2)
qed

text \<open>
  Claim C6. For every \<open>updates\<close>, \<open>updateDocument\<close> behaves as on the entries of the
  allow-list \<open>title\<close>, \<open>is_favorite\<close>, \<open>is_archived\<close> alone: every other key is dropped. It
  changes no other column than these three and \<open>updated_at\<close>, and no tag row. It fails
  with \<open>NoValidUpdates\<close> only when no entry passes the allow-list, and it does fail so
  whenever none passes and its connection opens and closes. Whatever it returns, the
  table of documents is either as it was, and the call failed, or every row of the
  document and owner is the \<open>stored_row\<close> of what it was and every other row is as it was.
  When it returns a document, the table is the second of these: in every row of the
  document the columns \<open>title\<close>, \<open>is_favorite\<close> and \<open>is_archived\<close> hold the values given
  for them in \<open>updates\<close>, a column that \<open>updates\<close> does not name keeps its value,
  \<open>updated_at\<close> is the time of the update, and the document returned is the first of
  these stored rows.
\<close>

theorem updateDocument_allow_list:
  assumes "updateDocument e documentId userId updates s = (r, s')"
  shows "updateDocument e documentId userId (allowedFields updates) s = (r, s') \<and>
     map immutable_columns (documents s') = map immutable_columns (documents s) \<and>
     document_tags s' = document_tags s \<and>
     (r = Inl NoValidUpdates \<longrightarrow> allowedFields updates = []) \<and>
     (allowedFields updates = [] \<and> io_fault e (tick s) = None \<and>
      io_fault e (Suc (tick s)) = None \<longrightarrow>
        r = Inl NoValidUpdates \<and> documents s' = documents s) \<and>
     (documents s' = documents s \<and> isl r \<or>
      documents s' =
        map (\<lambda>row. if doc_id row = documentId \<and> user_id row = userId
                   then stored_row updates (getTime (clock e (tick s + 2))) row else row)
          (documents s)) \<and>
     (\<forall>d tags. r = Inr (d, tags) \<longrightarrow>
        allowedFields updates \<noteq> [] \<and>
        updated_at d = getTime (clock e (tick s + 2)) \<and>
        (\<exists>d0 rest. owned_rows documentId userId s = d0 # rest \<and>
           d = (fold setColumn (allowedFields updates) d0)
                 \<lparr>updated_at := getTime (clock e (tick s + 2))\<rparr>) \<and>
        list_all (\<lambda>row. updated_at row = getTime (clock e (tick s + 2)))
          (owned_rows documentId userId s') \<and>
        documents s' =
          map (\<lambda>row. if doc_id row = documentId \<and> user_id row = userId
                     then stored_row updates (getTime (clock e (tick s + 2))) row else row)
            (documents s) \<and>
        (\<exists>rest. owned_rows documentId userId s' = d # rest) \<and>
        (distinct (map fst updates) \<longrightarrow>
           (\<forall>v. (js ''title'', v) \<in> set updates \<longrightarrow>
              list_all (\<lambda>row. doc_title row = v) (owned_rows documentId userId s')) \<and>
           (\<forall>v. (js ''is_favorite'', v) \<in> set updates \<longrightarrow>
              list_all (\<lambda>row. is_favorite row = v) (owned_rows documentId userId s')) \<and>
           (\<forall>v. (js ''is_archived'', v) \<in> set updates \<longrightarrow>
              list_all (\<lambda>row. is_archived row = v) (owned_rows documentId userId s'))) \<and>
        (js ''title'' \<notin> fst ` set updates \<longrightarrow>
           map doc_title (owned_rows documentId userId s') =
           map doc_title (owned_rows documentId userId s)) \<and>
        (js ''is_favorite'' \<notin> fst ` set updates \<longrightarrow>
           map is_favorite (owned_rows documentId userId s') =
           map is_favorite (owned_rows documentId userId s)) \<and>
        (js ''is_archived'' \<notin> fst ` set updates \<longrightarrow>
           map is_archived (owned_rows documentId userId s') =
           map is_archived (owned_rows documentId userId s)))"
proof (intro conjI impI allI)
  show "updateDocument e documentId userId (allowedFields updates) s = (r, s')"
    using assms updateDocument_filter [of e documentId userId updates] by simp
  show "map immutable_columns (documents s') = map immutable_columns (documents s)"
    and "document_tags s' = document_tags s"
    using updateDocument_immutable [OF assms] by simp_all
  show "documents s' = documents s \<and> isl r \<or>
      documents s' =
        map (\<lambda>row. if doc_id row = documentId \<and> user_id row = userId
                   then stored_row updates (getTime (clock e (tick s + 2))) row else row)
          (documents s)"
    by (rule updateDocument_documents [OF assms])
next
  assume "r = Inl NoValidUpdates"
  with assms show "allowedFields updates = []"
    by (simp add: updateDocument_NoValidUpdates_only_if)
next
  assume a: "allowedFields updates = [] \<and> io_fault e (tick s) = None \<and>
      io_fault e (Suc (tick s)) = None"
  then have "fst (updateDocument e documentId userId updates s) = Inl NoValidUpdates \<and>
         documents (snd (updateDocument e documentId userId updates s)) = documents s"
    by (simp add: updateDocument_NoValidUpdates_if)
  with assms show "r = Inl NoValidUpdates" and "documents s' = documents s" by simp_all
next
  fix d tags
  assume "r = Inr (d, tags)"
  with assms have u: "updateDocument e documentId userId updates s = (Inr (d, tags), s')" by simp
  note * = updateDocument_Inr [OF u]
  note ** = updateDocument_Inr_stored [OF u, THEN conjunct1]
    updateDocument_Inr_stored [OF u, THEN conjunct2, THEN conjunct1]
    updateDocument_Inr_stored [OF u, THEN conjunct2, THEN conjunct2]
  let ?t = "getTime (clock e (tick s + 2))"
  note o = **(2)
  from * show "allowedFields updates \<noteq> []" by simp
  from * show "\<exists>d0 rest. owned_rows documentId userId s = d0 # rest \<and>
           d = (fold setColumn (allowedFields updates) d0)
                 \<lparr>updated_at := getTime (clock e (tick s + 2))\<rparr>" by simp
  then show "updated_at d = getTime (clock e (tick s + 2))" by auto
  from * show "list_all (\<lambda>row. updated_at row = getTime (clock e (tick s + 2)))
          (owned_rows documentId userId s')" by simp
  show "documents s' =
          map (\<lambda>row. if doc_id row = documentId \<and> user_id row = userId
                     then stored_row updates (getTime (clock e (tick s + 2))) row else row)
            (documents s)" by (fact **(1))
  show "\<exists>rest. owned_rows documentId userId s' = d # rest" by (fact **(3))
  {
    assume "js ''title'' \<notin> fst ` set updates"
    then show "map doc_title (owned_rows documentId userId s') =
           map doc_title (owned_rows documentId userId s)"
      unfolding o by (simp add: stored_row_kept)
  }
  {
    assume "js ''is_favorite'' \<notin> fst ` set updates"
    then show "map is_favorite (owned_rows documentId userId s') =
           map is_favorite (owned_rows documentId userId s)"
      unfolding o by (simp add: stored_row_kept)
  }
  {
    assume "js ''is_archived'' \<notin> fst ` set updates"
    then show "map is_archived (owned_rows documentId userId s') =
           map is_archived (owned_rows documentId userId s)"
      unfolding o by (simp add: stored_row_kept)
  }
  assume dist: "distinct (map fst updates)"
  {
    fix v assume "(js ''title'', v) \<in> set updates"
    with dist show "list_all (\<lambda>row. doc_title row = v) (owned_rows documentId userId s')"
      unfolding o by (simp add: list_all_iff stored_row_columns)
  }
  {
    fix v assume "(js ''is_favorite'', v) \<in> set updates"
    with dist show "list_all (\<lambda>row. is_favorite row = v) (owned_rows documentId userId s')"
      unfolding o by (simp add: list_all_iff stored_row_columns)
  }
  {
    fix v assume "(js ''is_archived'', v) \<in> set updates"
    with dist show "list_all (\<lambda>row. is_archived row = v) (owned_rows documentId userId s')"
      unfolding o by (simp add: list_all_iff stored_row_columns)
  }
qed

lemma example_update:
  "fst (updateDocument no_faults (js ''doc-1'') (js ''user-1'')
          [(js ''is_favorite'', Bool True), (js ''not_allowed'', Str (js ''x''))] example_store) =
   Inr (example_row\<lparr>is_favorite := Bool True, updated_at := 1710000000002\<rparr>, [])"
  unfolding updateDocument_def getDocument_def
  by (simp add: monad_defs Let_def no_faults_def example_store_def empty_store_def
      example_row_def allowedUpdates_def updateRows_def setColumn_def NOW_def tagsOf_def
      joinedTagNames_def GROUP_CONCAT_def tagsField_def js_def)

lemma example_allowedFields:
  "allowedFields [(js ''is_favorite'', Bool True), (js ''not_allowed'', Str (js ''x''))] =
     [(js ''is_favorite'', Bool True)]"
  "allowedFields [(js ''not_allowed'', Str (js ''x''))] = []"
  by (simp_all add: allowedFields_def allowedUpdates_def js_def)

theorem updateDocument_allow_list_witness:
  "fst (updateDocument no_faults (js ''doc-1'') (js ''user-1'')
          [(js ''is_favorite'', Bool True), (js ''not_allowed'', Str (js ''x''))] example_store) =
     Inr (example_row\<lparr>is_favorite := Bool True, updated_at := 1710000000002\<rparr>, []) \<and>
   updateDocument no_faults (js ''doc-1'') (js ''user-1'') [(js ''is_favorite'', Bool True)]
       example_store =
     updateDocument no_faults (js ''doc-1'') (js ''user-1'')
       [(js ''is_favorite'', Bool True), (js ''not_allowed'', Str (js ''x''))] example_store \<and>
   list_all (\<lambda>row. updated_at row = 1710000000002)
     (owned_rows (js ''doc-1'') (js ''user-1'')
        (snd (updateDocument no_faults (js ''doc-1'') (js ''user-1'')
          [(js ''is_favorite'', Bool True), (js ''not_allowed'', Str (js ''x''))] example_store))) \<and>
   documents (snd (updateDocument no_faults (js ''doc-1'') (js ''user-1'')
          [(js ''is_favorite'', Bool True), (js ''not_allowed'', Str (js ''x''))] example_store)) =
     [example_row\<lparr>is_favorite := Bool True, updated_at := 1710000000002\<rparr>] \<and>
   list_all (\<lambda>row. is_favorite row = Bool True)
     (owned_rows (js ''doc-1'') (js ''user-1'')
        (snd (updateDocument no_faults (js ''doc-1'') (js ''user-1'')
          [(js ''is_favorite'', Bool True), (js ''not_allowed'', Str (js ''x''))] example_store))) \<and>
   map doc_title (owned_rows (js ''doc-1'') (js ''user-1'')
        (snd (updateDocument no_faults (js ''doc-1'') (js ''user-1'')
          [(js ''is_favorite'', Bool True), (js ''not_allowed'', Str (js ''x''))] example_store))) =
     [Str (js ''Q1 Outage'')] \<and>
   allowedFields [(js ''not_allowed'', Str (js ''x''))] = [] \<and>
   fst (updateDocument no_faults (js ''doc-1'') (js ''user-1'')
          [(js ''not_allowed'', Str (js ''x''))] example_store) = Inl NoValidUpdates"
proof -
  let ?ups = "[(js ''is_favorite'', Bool True), (js ''not_allowed'', Str (js ''x''))]"
  let ?u = "updateDocument no_faults (js ''doc-1'') (js ''user-1'') ?ups example_store"
  let ?v = "updateDocument no_faults (js ''doc-1'') (js ''user-1'')
          [(js ''not_allowed'', Str (js ''x''))] example_store"
  have u: "?u = (fst ?u, snd ?u)" and v: "?v = (fst ?v, snd ?v)" by simp_all
  have t: "getTime (clock no_faults (tick example_store + 2)) = 1710000000002"
    by (simp add: no_faults_def example_store_def empty_store_def)
  have f: "io_fault no_faults (tick example_store) = None"
    "io_fault no_faults (Suc (tick example_store)) = None"
    by (simp_all add: no_faults_def)
  have dist: "distinct (map fst ?ups)"
    and mem: "(js ''is_favorite'', Bool True) \<in> set ?ups"
    and absent: "js ''title'' \<notin> fst ` set ?ups"
    by (simp_all add: js_def)
  have rows: "map (\<lambda>row. if doc_id row = js ''doc-1'' \<and> user_id row = js ''user-1''
                     then stored_row ?ups 1710000000002 row else row) (documents example_store) =
      [example_row\<lparr>is_favorite := Bool True, updated_at := 1710000000002\<rparr>]"
    by (simp add: example_store_def empty_store_def example_row_def stored_row_def js_def)
  have titles: "map doc_title (owned_rows (js ''doc-1'') (js ''user-1'') example_store) =
      [Str (js ''Q1 Outage'')]"
    by (simp add: owned_rows_def example_store_def empty_store_def example_row_def)
  note a = updateDocument_allow_list [OF u]
  from a have "updateDocument no_faults (js ''doc-1'') (js ''user-1'')
      (allowedFields ?ups) example_store = (fst ?u, snd ?u)"
    by (rule conjunct1)
  then have 1: "updateDocument no_faults (js ''doc-1'') (js ''user-1'') [(js ''is_favorite'', Bool True)]
       example_store = ?u"
    by (simp only: example_allowedFields(1) u [symmetric])
  from a example_update
  have "list_all (\<lambda>row. updated_at row = getTime (clock no_faults (tick example_store + 2)))
     (owned_rows (js ''doc-1'') (js ''user-1'') (snd ?u))"
    by blast
  then have 2: "list_all (\<lambda>row. updated_at row = 1710000000002)
     (owned_rows (js ''doc-1'') (js ''user-1'') (snd ?u))"
    by (simp only: t)
  from a example_update
  have "documents (snd ?u) =
     map (\<lambda>row. if doc_id row = js ''doc-1'' \<and> user_id row = js ''user-1''
            then stored_row ?ups (getTime (clock no_faults (tick example_store + 2))) row else row)
       (documents example_store)"
    by blast
  then have 4: "documents (snd ?u) =
      [example_row\<lparr>is_favorite := Bool True, updated_at := 1710000000002\<rparr>]"
    by (simp only: t rows)
  from a example_update dist mem
  have 5: "list_all (\<lambda>row. is_favorite row = Bool True)
     (owned_rows (js ''doc-1'') (js ''user-1'') (snd ?u))"
    by blast
  from a example_update absent
  have "map doc_title (owned_rows (js ''doc-1'') (js ''user-1'') (snd ?u)) =
     map doc_title (owned_rows (js ''doc-1'') (js ''user-1'') example_store)"
    by blast
  then have 6: "map doc_title (owned_rows (js ''doc-1'') (js ''user-1'') (snd ?u)) =
     [Str (js ''Q1 Outage'')]"
    by (simp only: titles)
  from updateDocument_allow_list [OF v] example_allowedFields(2) f
  have 3: "fst ?v = Inl NoValidUpdates" by simp
  from 1 2 3 4 5 6 example_update example_allowedFields(2) show ?thesis by simp
qed

section \<open>Properties of addDocumentTags\<close>

lemma tagValues_document_id:
  "filter (\<lambda>t. document_id t = documentId) (tagValues e documentId ts n) = tagValues e documentId ts n"
  "filter (\<lambda>t. document_id t \<noteq> documentId) (tagValues e documentId ts n) = []"
  by (induction ts arbitrary: n) simp_all

lemma tagValues_tag_name: "map tag_name (tagValues e documentId ts n) = map trim ts"
  by (induction ts arbitrary: n) simp_all

lemma getDocument_owned:
  assumes "getDocument e documentId userId s = (r, s')" and "owned_rows documentId userId s = []"
  shows "isl r"
  using assms unfolding getDocument_def owned_rows_def
  by (auto simp: monad_defs split: option.splits list.splits)

lemma getDocument_store:
  assumes "getDocument e documentId userId s = (r, s')"
  shows "documents s' = documents s" "document_tags s' = document_tags s" "uuids s' = uuids s"
  using assms unfolding getDocument_def
  by (auto simp: monad_defs split: option.splits list.splits)

lemma addDocumentTags_not_owned:
  assumes "addDocumentTags e documentId userId tags s = (r, s')"
    and "owned_rows documentId userId s = []"
  shows "isl r \<and> document_tags s' = document_tags s"
proof -
  have g: "getDocument e documentId userId s0 = (r0, s1) \<Longrightarrow>
      owned_rows documentId userId s0 = [] \<Longrightarrow> isl r0 \<and> document_tags s1 = document_tags s0"
    for s0 r0 s1
    using getDocument_owned [of e documentId userId s0 r0 s1]
      getDocument_store(2) [of e documentId userId s0 r0 s1] by auto
  have o: "\<And>s0 f g. owned_rows documentId userId (s0\<lparr>trace := f, tick := g\<rparr>) =
      owned_rows documentId userId s0"
    by (simp add: owned_rows_def)
  show ?thesis
    using assms unfolding addDocumentTags_def
    by (auto simp: monad_defs o split: option.splits prod.splits sum.splits dest!: g)
qed

lemma addDocumentTags_Inr:
  assumes "addDocumentTags e documentId userId tags s = (Inr res, s')"
  shows "res = tags \<and> owned_rows documentId userId s \<noteq> [] \<and> documents s' = documents s \<and>
     document_tags s' =
       other_tags documentId s @ tagValues e documentId (given_tags tags) (uuids s)"
proof -
  have g: "getDocument e documentId userId s0 = (r0, s1) \<Longrightarrow>
      documents s1 = documents s0 \<and> document_tags s1 = document_tags s0 \<and> uuids s1 = uuids s0 \<and>
      (owned_rows documentId userId s0 = [] \<longrightarrow> isl r0)" for s0 r0 s1
    using getDocument_owned [of e documentId userId s0 r0 s1]
      getDocument_store [of e documentId userId s0 r0 s1] by auto
  have o: "\<And>s0 f g. owned_rows documentId userId (s0\<lparr>trace := f, tick := g\<rparr>) =
      owned_rows documentId userId s0"
    by (simp add: owned_rows_def)
  show ?thesis
    using assms unfolding addDocumentTags_def insertTags_def other_tags_def given_tags_def
    by (auto simp: monad_defs Let_def o split: option.splits prod.splits sum.splits if_splits
        dest!: g)
qed

lemma addDocumentTags_tag_names:
  assumes "addDocumentTags e documentId userId tags s = (Inr res, s')"
  shows "tag_names documentId s' = map trim (given_tags tags)"
    and "other_tags documentId s' = other_tags documentId s"
  using addDocumentTags_Inr [OF assms]
  by (simp_all add: tag_names_def other_tags_def tagValues_document_id tagValues_tag_name)

text \<open>
  Claim C7. \<open>addDocumentTags\<close> first verifies ownership: when no row has the given
  document id and owner it raises and leaves the tag rows as they were. When it
  returns, the tag names stored for the document are exactly the given tags, each
  trimmed, whatever was stored before (a replacement, not a merge), and the tag rows of
  other documents and the document rows are unchanged. Consequently, after two calls in
  a row that both return, the tags stored are those of the second call alone.
\<close>

theorem addDocumentTags_replaces:
  assumes "addDocumentTags e documentId userId tags s = (r, s')"
  shows "(owned_rows documentId userId s = [] \<longrightarrow> isl r \<and> document_tags s' = document_tags s) \<and>
     (\<not> isl r \<longrightarrow>
        owned_rows documentId userId s \<noteq> [] \<and>
        tag_names documentId s' = map trim (given_tags tags) \<and>
        other_tags documentId s' = other_tags documentId s \<and>
        documents s' = documents s) \<and>
     (\<forall>tags2 r2 s2.
        addDocumentTags e documentId userId tags2 s' = (r2, s2) \<and> \<not> isl r2 \<longrightarrow>
        tag_names documentId s2 = map trim (given_tags tags2))"
proof (intro conjI impI allI)
  assume "owned_rows documentId userId s = []"
  with assms have "isl r \<and> document_tags s' = document_tags s"
    by (rule addDocumentTags_not_owned)
  then show "isl r" and "document_tags s' = document_tags s" by simp_all
next
  assume "\<not> isl r"
  then obtain res where "r = Inr res" by (cases r) auto
  with assms have a: "addDocumentTags e documentId userId tags s = (Inr res, s')" by simp
  from addDocumentTags_Inr [OF a] show "owned_rows documentId userId s \<noteq> []"
    and "documents s' = documents s" by simp_all
  from a show "tag_names documentId s' = map trim (given_tags tags)"
    by (rule addDocumentTags_tag_names)
  from a show "other_tags documentId s' = other_tags documentId s"
    by (rule addDocumentTags_tag_names)
next
  fix tags2 r2 s2
  assume b: "addDocumentTags e documentId userId tags2 s' = (r2, s2) \<and> \<not> isl r2"
  then obtain res where "r2 = Inr res" by (cases r2) auto
  with b have "addDocumentTags e documentId userId tags2 s' = (Inr res, s2)" by simp
  then show "tag_names documentId s2 = map trim (given_tags tags2)"
    by (rule addDocumentTags_tag_names)
qed

lemma example_addTags:
  "fst (addDocumentTags no_faults (js ''doc-1'') (js ''user-1'') tags example_store) = Inr tags"
  unfolding addDocumentTags_def getDocument_def insertTags_def
  by (simp add: monad_defs Let_def no_faults_def example_store_def empty_store_def
      example_row_def js_def split: option.splits)

lemma example_addTags_twice:
  "fst (addDocumentTags no_faults (js ''doc-1'') (js ''user-1'') tags2
     (snd (addDocumentTags no_faults (js ''doc-1'') (js ''user-1'') tags1 example_store))) =
   Inr tags2"
  unfolding addDocumentTags_def getDocument_def insertTags_def
  by (simp add: monad_defs Let_def no_faults_def example_store_def empty_store_def
      example_row_def js_def split: option.splits)

theorem addDocumentTags_replaces_witness:
  "tag_names (js ''doc-1'')
     (snd (addDocumentTags no_faults (js ''doc-1'') (js ''user-1'') (Some [js ''c''])
        (snd (addDocumentTags no_faults (js ''doc-1'') (js ''user-1'') (Some [js ''a'', js ''b''])
           example_store)))) = [js ''c''] \<and>
   tag_names (js ''doc-1'')
     (snd (addDocumentTags no_faults (js ''doc-1'') (js ''user-1'') (Some [js ''a'', js ''b''])
           example_store)) = [js ''a'', js ''b''] \<and>
   isl (fst (addDocumentTags no_faults (js ''doc-1'') (js ''user-2'') (Some [js ''c''])
           example_store))"
proof -
  let ?a = "addDocumentTags no_faults (js ''doc-1'') (js ''user-1'') (Some [js ''a'', js ''b''])
           example_store"
  let ?c = "addDocumentTags no_faults (js ''doc-1'') (js ''user-1'') (Some [js ''c'']) (snd ?a)"
  let ?n = "addDocumentTags no_faults (js ''doc-1'') (js ''user-2'') (Some [js ''c''])
           example_store"
  have a: "?a = (fst ?a, snd ?a)" and c: "?c = (fst ?c, snd ?c)" and n: "?n = (fst ?n, snd ?n)"
    by simp_all
  have tr: "trim (js ''a'') = js ''a''" "trim (js ''b'') = js ''b''" "trim (js ''c'') = js ''c''"
    by (simp_all add: trim_def isWhiteSpace_def js_def)
  have ra: "\<not> isl (fst ?a)" by (simp add: example_addTags)
  have rc: "\<not> isl (fst ?c)" by (simp add: example_addTags_twice)
  have no: "owned_rows (js ''doc-1'') (js ''user-2'') example_store = []"
    by (simp add: owned_rows_def example_store_def example_row_def js_def)
  note t = addDocumentTags_replaces [OF a]
  from t ra have 1: "tag_names (js ''doc-1'') (snd ?a) = [js ''a'', js ''b'']"
    by (simp add: given_tags_def tr)
  from t c rc have "tag_names (js ''doc-1'') (snd ?c) = map trim (given_tags (Some [js ''c'']))"
    by blast
  then have 2: "tag_names (js ''doc-1'') (snd ?c) = [js ''c'']"
    by (simp add: given_tags_def tr)
  from addDocumentTags_replaces [OF n] no have 3: "isl (fst ?n)" by blast
  from 1 2 3 show ?thesis by simp
qed

section \<open>Tags through the store and back\<close>

lemma split_char_Cons:
  "split [c] (a # x) =
     (if a = c then [] # split [c] x
      else (a # hd (split [c] x)) # tl (split [c] x))"
proof (cases "a = c")
  case True
  then show ?thesis by (subst split.simps) simp
next
  case False
  show ?thesis
  proof (cases "indexOf_split [c] x")
    case None
    then have "split [c] x = [x]" by (subst split.simps) simp
    moreover from None False have "split [c] (a # x) = [a # x]" by (subst split.simps) simp
    ultimately show ?thesis using False by simp
  next
    case (Some ba)
    obtain b r where ba: "ba = (b, r)" by (cases ba)
    with Some have "split [c] x = b # split [c] r" by (subst split.simps) simp
    moreover from Some ba False have "split [c] (a # x) = (a # b) # split [c] r"
      by (subst split.simps) simp
    ultimately show ?thesis using False by simp
  qed
qed

lemma split_char_Nil: "split [c] [] = [[]]"
  by (subst split.simps) simp

lemma split_char_append:
  "split [c] (x @ c # y) = butlast (split [c] x) @ [last (split [c] x)] @ split [c] y"
proof (induction x)
  case Nil
  then show ?case by (simp add: split_char_Cons split_char_Nil)
next
  case (Cons a x)
  have ne: "split [c] x \<noteq> []" by (rule split_not_Nil) simp
  have ne': "split [c] (x @ c # y) \<noteq> []" by (rule split_not_Nil) simp
  show ?case
  proof (cases "a = c")
    case True
    with Cons ne show ?thesis by (simp add: split_char_Cons)
  next
    case False
    from ne obtain p ps where p: "split [c] x = p # ps" by (cases "split [c] x") auto
    with Cons.IH have "split [c] (x @ c # y) = p # ps @ split [c] y"
      by (cases ps) simp_all
    with False p show ?thesis
      by (simp add: split_char_Cons)
  qed
qed

lemma split_char_sep: "split [c] (x @ c # y) = split [c] x @ split [c] y"
proof -
  have "split [c] x \<noteq> []" by (rule split_not_Nil) simp
  then have "butlast (split [c] x) @ [last (split [c] x)] = split [c] x" by simp
  then show ?thesis using split_char_append [of c x y] by simp
qed













section \<open>No orphan tag rows\<close>

lemma no_orphan_tags_cong:
  assumes "map doc_id (documents s') = map doc_id (documents s)"
    and "document_tags s' = document_tags s"
  shows "no_orphan_tags s' = no_orphan_tags s"
proof -
  have "set (map doc_id (documents s')) = set (map doc_id (documents s))"
    using assms(1) by (rule arg_cong)
  then have "doc_id ` set (documents s') = doc_id ` set (documents s)"
    by (simp only: set_map)
  with assms(2) show ?thesis by (simp add: no_orphan_tags_def)
qed

lemma saveDocument_tables:
  assumes "saveDocument e base userEmail documentData fileBuffer s = (r, s')"
  shows "document_tags s' = document_tags s \<and>
     (documents s' = documents s \<or> (\<exists>row. documents s' = documents s @ [row]))"
  using assms unfolding saveDocument_defs
  by (auto simp: monad_defs Let_def split: option.splits if_splits)

lemma saveDocument_no_orphans:
  assumes "saveDocument e base userEmail documentData fileBuffer s = (r, s')"
    and "no_orphan_tags s"
  shows "no_orphan_tags s'"
  using saveDocument_tables [OF assms(1)] assms(2)
  by (auto simp: no_orphan_tags_def list_all_iff)

lemma getDocument_no_orphans:
  assumes "getDocument e documentId userId s = (r, s')" and "no_orphan_tags s"
  shows "no_orphan_tags s'"
  using getDocument_store [OF assms(1)] assms(2) by (simp add: no_orphan_tags_def)

lemma doc_id_immutable:
  "map doc_id xs = map (\<lambda>c. fst (fst c)) (map immutable_columns xs)"
  by (simp add: immutable_columns_def comp_def)

lemma updateDocument_no_orphans:
  assumes "updateDocument e documentId userId updates s = (r, s')" and "no_orphan_tags s"
  shows "no_orphan_tags s'"
proof -
  note u = updateDocument_immutable [OF assms(1)]
  from u have i: "map immutable_columns (documents s') = map immutable_columns (documents s)"
    by (rule conjunct1)
  from u have t: "document_tags s' = document_tags s"
    by (elim conjE)
  have "map doc_id (documents s') = map doc_id (documents s)"
    by (simp only: doc_id_immutable i)
  then have "no_orphan_tags s' = no_orphan_tags s"
    using t by (rule no_orphan_tags_cong)
  with assms(2) show ?thesis by simp
qed

lemma addDocumentTags_tables:
  assumes "addDocumentTags e documentId userId tags s = (r, s')"
  shows "documents s' = documents s \<and>
     (document_tags s' = document_tags s \<or>
      document_tags s' = other_tags documentId s \<or>
      owned_rows documentId userId s \<noteq> [] \<and>
      document_tags s' =
        other_tags documentId s @ tagValues e documentId (given_tags tags) (uuids s))"
proof -
  have g: "getDocument e documentId userId s0 = (r0, s1) \<Longrightarrow>
      documents s1 = documents s0 \<and> document_tags s1 = document_tags s0 \<and> uuids s1 = uuids s0 \<and>
      (owned_rows documentId userId s0 = [] \<longrightarrow> isl r0)" for s0 r0 s1
    using getDocument_owned [of e documentId userId s0 r0 s1]
      getDocument_store [of e documentId userId s0 r0 s1] by auto
  have o: "\<And>s0 f g. owned_rows documentId userId (s0\<lparr>trace := f, tick := g\<rparr>) =
      owned_rows documentId userId s0"
    by (simp add: owned_rows_def)
  show ?thesis
    using assms unfolding addDocumentTags_def insertTags_def other_tags_def given_tags_def
    by (auto simp: monad_defs Let_def o split: option.splits prod.splits sum.splits if_splits
        dest!: g)
qed

lemma tagValues_no_orphans:
  assumes "documentId \<in> doc_id ` set (documents s)"
  shows "list_all (\<lambda>t. document_id t \<in> doc_id ` set (documents s)) (tagValues e documentId ts n)"
  using assms by (induction ts arbitrary: n) simp_all

lemma owned_rows_doc_id:
  assumes "owned_rows documentId userId s \<noteq> []"
  shows "documentId \<in> doc_id ` set (documents s)"
proof -
  from assms obtain d where "d \<in> set (owned_rows documentId userId s)"
    by (cases "owned_rows documentId userId s") auto
  then have "d \<in> set (documents s)" "doc_id d = documentId"
    by (simp_all add: owned_rows_def)
  then show ?thesis by (rule_tac x = d in image_eqI) simp_all
qed

lemma addDocumentTags_no_orphans:
  assumes "addDocumentTags e documentId userId tags s = (r, s')" and "no_orphan_tags s"
  shows "no_orphan_tags s'"
proof -
  from addDocumentTags_tables [OF assms(1)]
  have d: "documents s' = documents s"
    and t: "document_tags s' = document_tags s \<or>
      document_tags s' = other_tags documentId s \<or>
      owned_rows documentId userId s \<noteq> [] \<and>
      document_tags s' =
        other_tags documentId s @ tagValues e documentId (given_tags tags) (uuids s)"
    by simp_all
  from assms(2) have old: "list_all (\<lambda>t. document_id t \<in> doc_id ` set (documents s))
      (other_tags documentId s)"
    by (simp add: no_orphan_tags_def other_tags_def list_all_iff)
  from t consider "document_tags s' = document_tags s"
    | "document_tags s' = other_tags documentId s"
    | "owned_rows documentId userId s \<noteq> []"
      "document_tags s' =
        other_tags documentId s @ tagValues e documentId (given_tags tags) (uuids s)"
    by blast
  then show ?thesis
  proof cases
    case 1
    with d assms(2) show ?thesis by (simp add: no_orphan_tags_def)
  next
    case 2
    with d old show ?thesis by (simp add: no_orphan_tags_def)
  next
    case 3
    from 3(1) have "documentId \<in> doc_id ` set (documents s)" by (rule owned_rows_doc_id)
    then have "list_all (\<lambda>t. document_id t \<in> doc_id ` set (documents s))
        (tagValues e documentId (given_tags tags) (uuids s))"
      by (rule tagValues_no_orphans)
    with 3(2) d old show ?thesis by (simp add: no_orphan_tags_def)
  qed
qed

lemma deleteRows_tables:
  "documents (deleteRows e documentId userId s) =
     filter (\<lambda>d. \<not> (doc_id d = documentId \<and> user_id d = userId)) (documents s)"
  "document_tags (deleteRows e documentId userId s) =
     (if on_delete_cascade e
      then filter (\<lambda>t. document_id t \<notin> doc_id ` set (owned_rows documentId userId s))
             (document_tags s)
      else document_tags s)"
  by (simp_all add: deleteRows_def owned_rows_def Let_def)

lemma deleteRows_no_orphans:
  assumes "on_delete_cascade e" and "no_orphan_tags s"
  shows "no_orphan_tags (deleteRows e documentId userId s)"
proof -
  have "document_id t \<in> doc_id ` set (filter (\<lambda>d. \<not> (doc_id d = documentId \<and> user_id d = userId))
      (documents s))"
    if t: "t \<in> set (document_tags s)"
      and n: "document_id t \<notin> doc_id ` set (owned_rows documentId userId s)" for t
  proof -
    from assms(2) t obtain d where d: "d \<in> set (documents s)" "doc_id d = document_id t"
      by (auto simp: no_orphan_tags_def list_all_iff)
    with n have "\<not> (doc_id d = documentId \<and> user_id d = userId)"
      by (auto simp: owned_rows_def)
    with d show ?thesis by (rule_tac x = d in image_eqI) simp_all
  qed
  with assms(1) show ?thesis
    by (simp add: no_orphan_tags_def deleteRows_tables list_all_iff)
qed

lemma andThen_cases [consumes 1, case_names fail ok]:
  assumes "andThen m f s = (r, s')"
  obtains err where "m s = (Inl err, s')" "r = Inl err"
  | a s1 where "m s = (Inr a, s1)" "f a s1 = (r, s')"
  using assms unfolding andThen_def by (auto split: prod.splits sum.splits)

lemma tryFinally_cases [consumes 1, case_names after]:
  assumes "tryFinally m fin s = (r, s')"
  obtains r0 s1 rf where "m s = (r0, s1)" "fin s1 = (rf, s')" "r = r0 \<or> isl r"
  using assms unfolding tryFinally_def by (auto split: prod.splits sum.splits)

lemma tryCatch_cases [consumes 1, case_names ok caught]:
  assumes "tryCatch m h s = (r, s')"
  obtains a where "m s = (Inr a, s')" "r = Inr a"
  | err s1 where "m s = (Inl err, s1)" "h err s1 = (r, s')"
  using assms unfolding tryCatch_def by (auto split: prod.splits sum.splits)

lemma io_tables:
  assumes "io e op s = (r, s')"
  shows "documents s' = documents s \<and> document_tags s' = document_tags s \<and> files s' = files s \<and>
    uuids s' = uuids s"
  using assms by (auto simp: io_def split: option.splits)

lemma execute_tables:
  assumes "execute e op params s = (r, s')"
  shows "documents s' = documents s \<and> document_tags s' = document_tags s \<and> files s' = files s \<and>
    uuids s' = uuids s"
  using assms io_tables [of e op s r s'] by (auto simp: execute_def throw_def split: if_splits)

lemma unlink_tables:
  assumes "unlink e p s = (r, s')"
  shows "documents s' = documents s \<and> document_tags s' = document_tags s"
  using assms unfolding unlink_def
  by (auto simp: missing_file_def modify_def elim!: andThen_cases dest!: io_tables
      split: if_splits)

lemma deleteDocument_tables:
  assumes "deleteDocument e documentId userId s = (r, s')"
  shows "(documents s' = documents s \<and> document_tags s' = document_tags s \<and> isl r) \<or>
     (documents s' = documents (deleteRows e documentId userId s) \<and>
      document_tags s' = document_tags (deleteRows e documentId userId s) \<and>
      owned_rows documentId userId s \<noteq> [])"
proof -
  from assms show ?thesis
    unfolding deleteDocument_def
  proof (cases rule: andThen_cases)
    case (fail err)
    then show ?thesis by (auto dest!: io_tables)
  next
    case (ok a s1)
    note c = io_tables [OF ok(1)]
    from ok(2) show ?thesis
    proof (cases rule: tryFinally_cases)
      case (after r0 s2 rf)
      note f = io_tables [OF after(2)]
      from after(1) show ?thesis
      proof (cases rule: andThen_cases)
        case (fail err)
        with c f after(3) getDocument_store [OF fail(1)] show ?thesis by auto
      next
        case (ok document s3)
        note g = getDocument_store [OF ok(1)]
        have own: "owned_rows documentId userId s \<noteq> []"
        proof
          assume "owned_rows documentId userId s = []"
          with c have "owned_rows documentId userId s1 = []" by (simp add: owned_rows_def)
          with getDocument_owned [OF ok(1)] show False by simp
        qed
        from ok(2) show ?thesis
        proof (cases rule: andThen_cases)
          case (fail err)
          then show ?thesis by (auto simp: succeed_def elim!: tryCatch_cases dest!: unlink_tables)
        next
          case (ok u s4)
          have u: "documents s4 = documents s3" "document_tags s4 = document_tags s3"
            using ok(1) by (auto simp: succeed_def elim!: tryCatch_cases dest!: unlink_tables)
          from ok(2) show ?thesis
          proof (cases rule: andThen_cases)
            case (fail err)
            with c f g u after(3) execute_tables [OF fail(1)] show ?thesis by auto
          next
            case (ok v s5)
            note x = execute_tables [OF ok(1)]
            from ok(2) have "s2 = deleteRows e documentId userId s5" and "r0 = Inr ()"
              by (auto simp: modify_def)
            with c f g u x own show ?thesis
              by (simp add: deleteRows_tables owned_rows_def)
          qed
        qed
      qed
    qed
  qed
qed

lemma deleteDocument_no_orphans:
  assumes "deleteDocument e documentId userId s = (r, s')"
    and "on_delete_cascade e" and "no_orphan_tags s"
  shows "no_orphan_tags s'"
proof -
  from deleteDocument_tables [OF assms(1)]
  consider "documents s' = documents s" "document_tags s' = document_tags s"
    | "documents s' = documents (deleteRows e documentId userId s)"
      "document_tags s' = document_tags (deleteRows e documentId userId s)"
    by blast
  then show ?thesis
  proof cases
    case 1
    with assms(3) show ?thesis by (simp add: no_orphan_tags_def)
  next
    case 2
    with deleteRows_no_orphans [OF assms(2,3), of documentId userId] show ?thesis
      by (simp add: no_orphan_tags_def)
  qed
qed

lemma deleteDocument_removes_tags:
  assumes "deleteDocument e documentId userId s = (Inr u, s')" and "on_delete_cascade e"
  shows "owned_rows documentId userId s' = [] \<and> tag_names documentId s' = []"
proof -
  from deleteDocument_tables [OF assms(1)]
  have d: "documents s' = documents (deleteRows e documentId userId s)"
    and t: "document_tags s' = document_tags (deleteRows e documentId userId s)"
    and o: "owned_rows documentId userId s \<noteq> []"
    by simp_all
  from o have "documentId \<in> doc_id ` set (owned_rows documentId userId s)"
    by (cases "owned_rows documentId userId s") (auto simp: owned_rows_def filter_eq_Cons_iff)
  with t assms(2) have "tag_names documentId s' = []"
    by (auto simp: tag_names_def deleteRows_tables filter_empty_conv)
  moreover from d have "owned_rows documentId userId s' = []"
    by (auto simp: owned_rows_def deleteRows_tables filter_empty_conv)
  ultimately show ?thesis by simp
qed

lemma deleteDocument_without_cascade:
  assumes "deleteDocument e documentId userId s = (r, s')" and "\<not> on_delete_cascade e"
  shows "document_tags s' = document_tags s"
  using deleteDocument_tables [OF assms(1)] assms(2) by (auto simp: deleteRows_tables)

lemma batchAction_no_orphans:
  assumes "batchAction e userId action data documentId s = (r, s')"
    and "on_delete_cascade e" and "no_orphan_tags s"
  shows "no_orphan_tags s'"
  using assms unfolding batchAction_def
  by (auto simp: succeed_def throw_def split: if_splits elim!: andThen_cases
      dest: deleteDocument_no_orphans updateDocument_no_orphans)

lemma batch_no_orphans:
  assumes "on_delete_cascade e" and "no_orphan_tags s"
  shows "no_orphan_tags (snd (batch e userId action data documentIds s))"
  using assms(2)
proof (induction documentIds arbitrary: s)
  case Nil
  then show ?case by simp
next
  case (Cons documentId rest)
  obtain r s1 where b: "batchAction e userId action data documentId s = (r, s1)"
    by (cases "batchAction e userId action data documentId s")
  from b assms(1) Cons.prems have "no_orphan_tags s1" by (rule batchAction_no_orphans)
  then have "no_orphan_tags (snd (batch e userId action data rest s1))" by (rule Cons.IH)
  with b show ?case by (cases r) (auto split: prod.splits)
qed

lemma serve_no_orphans:
  assumes "on_delete_cascade e" and "no_orphan_tags s"
  shows "no_orphan_tags (serve e baseStoragePath request s)"
proof (cases request)
  case (Save userEmail documentData fileBuffer)
  with assms(2) saveDocument_no_orphans
    [of e baseStoragePath userEmail documentData fileBuffer s] show ?thesis
    by (simp add: prod_eq_iff)
next
  case (Get documentId userId)
  with assms(2) getDocument_no_orphans [of e documentId userId s] show ?thesis
    by (simp add: prod_eq_iff)
next
  case (Delete documentId userId)
  with assms deleteDocument_no_orphans [of e documentId userId s] show ?thesis
    by (simp add: prod_eq_iff)
next
  case (Update documentId userId updates)
  with assms(2) updateDocument_no_orphans [of e documentId userId updates s] show ?thesis
    by (simp add: prod_eq_iff)
next
  case (AddTags documentId userId tags)
  with assms(2) addDocumentTags_no_orphans [of e documentId userId tags s] show ?thesis
    by (simp add: prod_eq_iff)
next
  case (Batch userId action data documentIds)
  with assms batch_no_orphans [of e s userId action data documentIds] show ?thesis by simp
qed

lemma serveAll_no_orphans:
  assumes "on_delete_cascade e" and "no_orphan_tags s"
  shows "no_orphan_tags (serveAll e baseStoragePath requests s)"
  using assms(2) unfolding serveAll_def
  by (induction requests arbitrary: s) (simp_all add: serve_no_orphans [OF assms(1)])

text \<open>
  Claim C8, for a schema with the referential cascade. Every store reached from the
  empty store by requests to the service, whatever fails on the way, has no orphan tag
  rows: no tag row names a document id without a metadata row; the requests keep this
  invariant from any store that has it. After a \<open>deleteDocument\<close> that returns, the
  document has no metadata row of the owner and no tag row. (\<open>deleteDocument\<close> itself
  deletes no tag row: without the cascade the tag rows stay, as
  \<open>deleteDocument_without_cascade\<close> shows.)
\<close>

theorem no_orphan_tag_rows:
  assumes "on_delete_cascade e"
  shows "no_orphan_tags (serveAll e baseStoragePath requests empty_store) \<and>
     (no_orphan_tags s \<longrightarrow> no_orphan_tags (serveAll e baseStoragePath requests s)) \<and>
     (\<forall>r s'. deleteDocument e documentId userId s = (r, s') \<and> \<not> isl r \<longrightarrow>
        owned_rows documentId userId s' = [] \<and> tag_names documentId s' = [])"
proof (intro conjI impI allI)
  have "no_orphan_tags empty_store" by (simp add: no_orphan_tags_def empty_store_def)
  with assms show "no_orphan_tags (serveAll e baseStoragePath requests empty_store)"
    by (rule serveAll_no_orphans)
next
  assume "no_orphan_tags s"
  with assms show "no_orphan_tags (serveAll e baseStoragePath requests s)"
    by (rule serveAll_no_orphans)
next
  fix r s'
  assume a: "deleteDocument e documentId userId s = (r, s') \<and> \<not> isl r"
  then obtain u where "r = Inr u" by (cases r) auto
  with a have "deleteDocument e documentId userId s = (Inr u, s')" by simp
  from deleteDocument_removes_tags [OF this assms]
  show "owned_rows documentId userId s' = []" and "tag_names documentId s' = []" by simp_all
qed

lemma example_delete_after_tags:
  "\<not> isl (fst (deleteDocument no_faults (js ''doc-1'') (js ''user-1'')
      (snd (addDocumentTags no_faults (js ''doc-1'') (js ''user-1'') (Some [js ''a''])
         example_store))))"
  unfolding deleteDocument_def addDocumentTags_def getDocument_def insertTags_def unlink_def
  by (simp add: monad_defs Let_def no_faults_def example_store_def empty_store_def
      example_row_def js_def)

theorem no_orphan_tag_rows_witness:
  "on_delete_cascade no_faults \<and> no_orphan_tags example_store \<and>
   no_orphan_tags
     (serveAll no_faults (js ''/srv/app/stored'')
        [AddTags (js ''doc-1'') (js ''user-1'') (Some [js ''a'']),
         Delete (js ''doc-1'') (js ''user-1'')] example_store) \<and>
   tag_names (js ''doc-1'')
     (snd (addDocumentTags no_faults (js ''doc-1'') (js ''user-1'') (Some [js ''a''])
         example_store)) = [js ''a''] \<and>
   tag_names (js ''doc-1'')
     (snd (deleteDocument no_faults (js ''doc-1'') (js ''user-1'')
        (snd (addDocumentTags no_faults (js ''doc-1'') (js ''user-1'') (Some [js ''a''])
           example_store)))) = []"
proof -
  let ?s = "snd (addDocumentTags no_faults (js ''doc-1'') (js ''user-1'') (Some [js ''a''])
         example_store)"
  let ?d = "deleteDocument no_faults (js ''doc-1'') (js ''user-1'') ?s"
  have c: "on_delete_cascade no_faults" by (simp add: no_faults_def)
  have i: "no_orphan_tags example_store"
    by (simp add: no_orphan_tags_def example_store_def empty_store_def)
  have d: "?d = (fst ?d, snd ?d) \<and> \<not> isl (fst ?d)"
    using example_delete_after_tags by simp
  have a: "tag_names (js ''doc-1'') ?s = [js ''a'']"
    unfolding addDocumentTags_def getDocument_def insertTags_def tag_names_def
    by (simp add: monad_defs Let_def no_faults_def example_store_def empty_store_def
      example_row_def js_def trim_def isWhiteSpace_def)
  note t = no_orphan_tag_rows [OF c, of "js ''/srv/app/stored''"
      "[AddTags (js ''doc-1'') (js ''user-1'') (Some [js ''a'']),
        Delete (js ''doc-1'') (js ''user-1'')]"]
  from t [of example_store] i have 1: "no_orphan_tags
     (serveAll no_faults (js ''/srv/app/stored'')
        [AddTags (js ''doc-1'') (js ''user-1'') (Some [js ''a'']),
         Delete (js ''doc-1'') (js ''user-1'')] example_store)"
    by blast
  from t [of ?s "js ''doc-1''" "js ''user-1''"] d
  have 2: "tag_names (js ''doc-1'') (snd ?d) = []" by blast
  from c i 1 a 2 show ?thesis by blast
qed

section \<open>Properties of the batch route\<close>

lemma batch_ids: "map entry_id (fst (batch e userId action data documentIds s)) = documentIds"
proof (induction documentIds arbitrary: s)
  case Nil
  then show ?case by simp
next
  case (Cons documentId rest)
  obtain r s1 where b: "batchAction e userId action data documentId s = (r, s1)"
    by (cases "batchAction e userId action data documentId s")
  obtain results s2 where c: "batch e userId action data rest s1 = (results, s2)"
    by (cases "batch e userId action data rest s1")
  from Cons [of s1] c have "map entry_id results = rest" by simp
  with b c show ?case by (cases r) simp_all
qed

lemma batch_append:
  "batch e userId action data (ids1 @ ids2) s =
     (case batch e userId action data ids1 s of
        (results1, s1) \<Rightarrow>
          (case batch e userId action data ids2 s1 of
             (results2, s2) \<Rightarrow> (results1 @ results2, s2)))"
proof (induction ids1 arbitrary: s)
  case Nil
  then show ?case by (simp split: prod.splits)
next
  case (Cons documentId rest)
  obtain r s1 where b: "batchAction e userId action data documentId s = (r, s1)"
    by (cases "batchAction e userId action data documentId s")
  with Cons [of s1] show ?case by (cases r) (simp_all split: prod.splits)
qed

lemma getDocument_no_faults:
  assumes "\<forall>n. io_fault e n = None"
  shows "fst (getDocument e documentId userId s) =
     (case owned_rows documentId userId s of
        [] \<Rightarrow> Inl DocumentNotFound
      | document # others \<Rightarrow> Inr (document, tagsOf (document # others) (document_tags s)))"
  using assms unfolding getDocument_def owned_rows_def
  by (simp add: monad_defs split: list.splits)

lemma owned_rows_trace [simp]:
  "owned_rows documentId userId (s\<lparr>trace := t, tick := k\<rparr>) = owned_rows documentId userId s"
  by (simp add: owned_rows_def)

lemma updateDocument_no_faults:
  assumes nf: "\<forall>n. io_fault e n = None"
    and ne: "allowedFields updates \<noteq> []"
    and un: "Undefined \<notin> snd ` set (allowedFields updates)"
  shows "fst (updateDocument e documentId userId updates s) =
     (case map (\<lambda>d. (fold setColumn (allowedFields updates) d)
                       \<lparr>updated_at := getTime (clock e (Suc (Suc (tick s))))\<rparr>)
             (owned_rows documentId userId s) of
        [] \<Rightarrow> Inl DocumentNotFound
      | document # others \<Rightarrow> Inr (document, tagsOf (document # others) (document_tags s)))"
proof -
  define s2 where "s2 = s\<lparr>trace := trace s @ [(CreateConnection, True)], tick := Suc (tick s)\<rparr>
      \<lparr>trace := (trace s @ [(CreateConnection, True)]) @ [(UpdateDocument documentId userId, True)],
       tick := Suc (Suc (tick s))\<rparr>"
  define s3 where "s3 = updateRows e documentId userId (allowedFields updates) s2"
  have "fst (updateDocument e documentId userId updates s) =
      fst (getDocument e documentId userId s3)"
    using assms unfolding updateDocument_def allowedFields_def s3_def s2_def
    by (auto simp add: monad_defs Let_def case_prod_beta split: sum.splits)
  also have "\<dots> = (case owned_rows documentId userId s3 of
        [] \<Rightarrow> Inl DocumentNotFound
      | document # others \<Rightarrow> Inr (document, tagsOf (document # others) (document_tags s3)))"
    using nf by (rule getDocument_no_faults)
  also have "owned_rows documentId userId s3 =
      map (\<lambda>d. (fold setColumn (allowedFields updates) d)
                       \<lparr>updated_at := getTime (clock e (Suc (Suc (tick s))))\<rparr>)
             (owned_rows documentId userId s)"
    by (simp add: s3_def owned_rows_updateRows) (simp add: s2_def NOW_def)
  also have "document_tags s3 = document_tags s"
    by (simp add: s3_def s2_def)
  finally show ?thesis .
qed

lemma updateDocument_owned_rows:
  assumes "updateDocument e documentId userId updates s = (r, s')"
  shows "(owned_rows y u s' = []) = (owned_rows y u s = [])"
proof -
  from updateDocument_immutable [OF assms]
  have i: "map immutable_columns (documents s') = map immutable_columns (documents s)"
    by (rule conjunct1)
  have k: "map (\<lambda>d. doc_id d = y \<and> user_id d = u) xs =
      map (\<lambda>c. fst (fst c) = y \<and> fst (snd (fst c)) = u) (map immutable_columns xs)" for xs
    by (simp add: immutable_columns_def comp_def)
  have "map (\<lambda>d. doc_id d = y \<and> user_id d = u) (documents s') =
      map (\<lambda>d. doc_id d = y \<and> user_id d = u) (documents s)"
    by (simp only: k i)
  then have m: "map (\<lambda>d. doc_id d = y \<and> user_id d = u) (documents s') =
      map (\<lambda>d. doc_id d = y \<and> user_id d = u) (documents s)" .
  have e: "(owned_rows y u s0 = []) =
      (True \<notin> set (map (\<lambda>d. doc_id d = y \<and> user_id d = u) (documents s0)))" for s0
    by (auto simp: owned_rows_def filter_empty_conv)
  show ?thesis by (simp only: e m)
qed

lemma andThen_Inl: "m s = (Inl err, s1) \<Longrightarrow> andThen m f s = (Inl err, s1)"
  by (simp add: andThen_def)

lemma andThen_Inr: "m s = (Inr a, s1) \<Longrightarrow> andThen m f s = f a s1"
  by (simp add: andThen_def)

lemma favorite_fields:
  "allowedFields [(js ''is_favorite'', v)] = [(js ''is_favorite'', v)]"
  by (simp add: allowedFields_def allowedUpdates_def js_def)

lemma favorite_not_owned:
  assumes "\<forall>n. io_fault e n = None" and "owned_rows x userId s = []"
  shows "fst (updateDocument e x userId [(js ''is_favorite'', Bool True)] s) = Inl DocumentNotFound"
  using assms
  by (simp add: updateDocument_no_faults favorite_fields)

lemma favorite_owned:
  assumes "\<forall>n. io_fault e n = None" and "owned_rows y userId s \<noteq> []"
  shows "\<exists>d tags. fst (updateDocument e y userId [(js ''is_favorite'', Bool True)] s) = Inr (d, tags) \<and>
           is_favorite d = Bool True \<and> doc_id d = y \<and> user_id d = userId"
proof -
  from assms(2) obtain d0 rest where o: "owned_rows y userId s = d0 # rest"
    by (cases "owned_rows y userId s") auto
  then have "d0 \<in> set (owned_rows y userId s)" by simp
  then have k: "doc_id d0 = y" "user_id d0 = userId" by (simp_all add: owned_rows_def)
  have "js ''is_favorite'' \<noteq> js ''title''" by (simp add: js_def)
  with assms(1) o k show ?thesis
    by (simp add: updateDocument_no_faults favorite_fields setColumn_def)
qed

lemma batch_favorite_scenario:
  assumes nf: "\<forall>n. io_fault e n = None"
    and x: "owned_rows x userId s = []" and y: "owned_rows y userId s \<noteq> []"
    and fav: "property data (js ''favorite'') = Bool True"
  shows "\<exists>d tags. fst (batch e userId (js ''favorite'') data [x, y] s) =
           [ItemFailure x ''Document not found'', ItemSuccess y (Updated (d, tags))] \<and>
           is_favorite d = Bool True \<and> doc_id d = y \<and> user_id d = userId"
proof -
  let ?ux = "updateDocument e x userId [(js ''is_favorite'', Bool True)] s"
  have a: "js ''favorite'' \<noteq> js ''delete''" by (simp add: js_def)
  have ux: "?ux = (Inl DocumentNotFound, snd ?ux)"
    using favorite_not_owned [OF nf x] by (simp add: prod_eq_iff)
  from updateDocument_owned_rows [OF ux, of y userId] y
  have y1: "owned_rows y userId (snd ?ux) \<noteq> []" by simp
  from favorite_owned [OF nf y1] obtain d tags
    where uy: "fst (updateDocument e y userId [(js ''is_favorite'', Bool True)] (snd ?ux)) =
        Inr (d, tags)"
      and d: "is_favorite d = Bool True" "doc_id d = y" "user_id d = userId"
    by blast
  let ?uy = "updateDocument e y userId [(js ''is_favorite'', Bool True)] (snd ?ux)"
  from uy have uy': "?uy = (Inr (d, tags), snd ?uy)" by (simp add: prod_eq_iff)
  have bx: "batchAction e userId (js ''favorite'') data x s = (Inl DocumentNotFound, snd ?ux)"
    using a andThen_Inl [of "updateDocument e x userId [(js ''is_favorite'', Bool True)]" s, OF ux] by (simp add: batchAction_def fav)
  have "batchAction e userId (js ''favorite'') data y (snd ?ux) = (Inr (Updated (d, tags)), snd ?uy)"
    using a andThen_Inr [of "updateDocument e y userId [(js ''is_favorite'', Bool True)]" "snd ?ux"
        "(d, tags)" "snd ?uy" "\<lambda>document. succeed (Updated document)", OF uy'] by (simp add: batchAction_def fav succeed_def)
  with bx have "fst (batch e userId (js ''favorite'') data [x, y] s) =
      [ItemFailure x ''Document not found'', ItemSuccess y (Updated (d, tags))]"
    by simp
  with d show ?thesis by blast
qed

lemma batch_Cons:
  "batch e userId action data (documentId # rest) s =
     (case batchAction e userId action data documentId s of
        (outcome, s1) \<Rightarrow>
          (case batch e userId action data rest s1 of
             (results, s2) \<Rightarrow>
               ((case outcome of
                   Inr result \<Rightarrow> ItemSuccess documentId result
                 | Inl err \<Rightarrow> ItemFailure documentId (message err)) # results, s2)))"
  by (simp split: prod.splits sum.splits)

lemma batch_length: "length (fst (batch e userId action data documentIds s)) = length documentIds"
  using batch_ids [of e userId action data documentIds s, THEN arg_cong, of length]
  by simp

lemma batch_nth:
  assumes "i < length documentIds"
  shows "fst (batch e userId action data documentIds s) ! i =
     (case fst (batchAction e userId action data (documentIds ! i)
                  (snd (batch e userId action data (take i documentIds) s))) of
        Inr result \<Rightarrow> ItemSuccess (documentIds ! i) result
      | Inl err \<Rightarrow> ItemFailure (documentIds ! i) (message err))"
proof -
  define pre where "pre = batch e userId action data (take i documentIds) s"
  define item where "item = batchAction e userId action data (documentIds ! i) (snd pre)"
  define post where "post = batch e userId action data (drop (Suc i) documentIds) (snd item)"
  define entry where "entry = (case fst item of
        Inr result \<Rightarrow> ItemSuccess (documentIds ! i) result
      | Inl err \<Rightarrow> ItemFailure (documentIds ! i) (message err))"
  have ids: "documentIds = take i documentIds @ (documentIds ! i # drop (Suc i) documentIds)"
    using assms by (rule id_take_nth_drop)
  have "batch e userId action data (documentIds ! i # drop (Suc i) documentIds) (snd pre) =
      (entry # fst post, snd post)"
    by (simp only: batch_Cons case_prod_beta entry_def post_def item_def)
  then have "batch e userId action data
        (take i documentIds @ (documentIds ! i # drop (Suc i) documentIds)) s =
      (fst pre @ entry # fst post, snd post)"
    by (simp only: batch_append case_prod_beta pre_def fst_conv snd_conv)
  with ids have "fst (batch e userId action data documentIds s) = fst pre @ entry # fst post"
    by simp
  moreover have "length (fst pre) = i"
    using assms by (simp add: pre_def batch_length)
  ultimately have "fst (batch e userId action data documentIds s) ! i = entry"
    using nth_append_length [of "fst pre" entry "fst post"] by simp
  then show ?thesis by (simp only: entry_def item_def pre_def)
qed

lemma batchAction_outcome:
  "fst (batchAction e userId action data documentId s) =
     (if action = js ''delete'' then
        map_sum id (\<lambda>_. Deleted) (fst (deleteDocument e documentId userId s))
      else if action = js ''favorite'' then
        map_sum id Updated
          (fst (updateDocument e documentId userId
                  [(js ''is_favorite'', property data (js ''favorite''))] s))
      else if action = js ''archive'' then
        map_sum id Updated
          (fst (updateDocument e documentId userId
                  [(js ''is_archived'', property data (js ''archived''))] s))
      else Inl InvalidBatchAction)"
  by (simp add: batchAction_def andThen_def succeed_def throw_def split: prod.splits sum.splits)

lemma batchAction_store:
  "snd (batchAction e userId action data documentId s) =
     (if action = js ''delete'' then snd (deleteDocument e documentId userId s)
      else if action = js ''favorite'' then
        snd (updateDocument e documentId userId
               [(js ''is_favorite'', property data (js ''favorite''))] s)
      else if action = js ''archive'' then
        snd (updateDocument e documentId userId
               [(js ''is_archived'', property data (js ''archived''))] s)
      else s)"
  by (simp add: batchAction_def andThen_def succeed_def throw_def split: prod.splits sum.splits)

lemma batch_invalid_action:
  assumes "action \<noteq> js ''delete''" "action \<noteq> js ''favorite''" "action \<noteq> js ''archive''"
  shows "batch e userId action data documentIds s =
     (map (\<lambda>documentId. ItemFailure documentId ''Invalid batch action'') documentIds, s)"
proof (induction documentIds)
  case Nil
  show ?case by simp
next
  case (Cons documentId rest)
  have "batchAction e userId action data documentId s = (Inl InvalidBatchAction, s)"
    using assms by (simp add: batchAction_def throw_def)
  with Cons.IH show ?case by simp
qed

lemma deleteDocument_not_owned:
  assumes nf: "\<forall>n. io_fault e n = None" and x: "owned_rows x userId s = []"
  shows "fst (deleteDocument e x userId s) = Inl DocumentNotFound"
proof -
  let ?s1 = "s\<lparr>trace := trace s @ [(CreateConnection, True)], tick := Suc (tick s)\<rparr>"
  let ?g = "getDocument e x userId ?s1"
  from x have "owned_rows x userId ?s1 = []" by simp
  with getDocument_no_faults [OF nf, of x userId ?s1]
  have "fst ?g = Inl DocumentNotFound" by simp
  then obtain s2 where g: "?g = (Inl DocumentNotFound, s2)" by (cases ?g) simp
  show ?thesis
    using nf unfolding deleteDocument_def
    by (simp add: andThen_def tryFinally_def io_def g)
qed

lemma archive_fields:
  "allowedFields [(js ''is_archived'', v)] = [(js ''is_archived'', v)]"
  by (simp add: allowedFields_def allowedUpdates_def js_def)

lemma archive_not_owned:
  assumes "\<forall>n. io_fault e n = None" and "owned_rows x userId s = []" and "v \<noteq> Undefined"
  shows "fst (updateDocument e x userId [(js ''is_archived'', v)] s) = Inl DocumentNotFound"
  using assms
  by (simp add: updateDocument_no_faults archive_fields)

lemma batch_not_owned:
  assumes nf: "\<forall>n. io_fault e n = None" and x: "owned_rows x userId s = []"
  shows "fst (batch e userId (js ''delete'') data [x] s) = [ItemFailure x ''Document not found'']"
    and "property data (js ''archived'') \<noteq> Undefined \<Longrightarrow>
      fst (batch e userId (js ''archive'') data [x] s) = [ItemFailure x ''Document not found'']"
proof -
  have a: "js ''archive'' \<noteq> js ''delete''" "js ''archive'' \<noteq> js ''favorite''"
    by (simp_all add: js_def)
  show "fst (batch e userId (js ''delete'') data [x] s) = [ItemFailure x ''Document not found'']"
    unfolding batch_Cons
    by (simp add: case_prod_beta batchAction_outcome deleteDocument_not_owned [OF nf x])
  assume "property data (js ''archived'') \<noteq> Undefined"
  then show "fst (batch e userId (js ''archive'') data [x] s) =
      [ItemFailure x ''Document not found'']"
    unfolding batch_Cons
    by (simp add: case_prod_beta batchAction_outcome a archive_not_owned [OF nf x])
qed

text \<open>
  Claim C9. For every batch request, whatever fails, the results have one entry for each
  document id, in order: no item's failure ends the loop, and the items after a failure
  are processed as a batch of their own on the store the earlier items left. The entry
  of an item is a failure with the message of the error exactly when the action of that
  item fails on the store the earlier items left, and a success with its result
  otherwise; the action fails or succeeds as \<open>deleteDocument\<close> or \<open>updateDocument\<close> does
  for that document and the caller, and an action other than \<open>delete\<close>, \<open>favorite\<close> and
  \<open>archive\<close> fails for every item with \<open>Invalid batch action\<close> and leaves the store as
  it was. In particular, without I/O failures, a \<open>favorite\<close> batch over \<open>[x, y]\<close> with
  \<open>data.favorite\<close> true, where the caller owns no document \<open>x\<close> and owns \<open>y\<close>, returns
  the failure \<open>Document not found\<close> for \<open>x\<close> and a success for \<open>y\<close> with the caller's
  document, its flag set; and a \<open>delete\<close> or an \<open>archive\<close> of a document \<open>x\<close> that the
  caller does not own returns the failure \<open>Document not found\<close> for it.
\<close>

theorem batch_isolates_failures:
  "map entry_id (fst (batch e userId action data documentIds s)) = documentIds \<and>
   batch e userId action data (documentIds @ moreIds) s =
     (case batch e userId action data documentIds s of
        (results1, s1) \<Rightarrow>
          (case batch e userId action data moreIds s1 of
             (results2, s2) \<Rightarrow> (results1 @ results2, s2))) \<and>
   ((\<forall>n. io_fault e n = None) \<and> owned_rows x userId s = [] \<and> owned_rows y userId s \<noteq> [] \<and>
    property data (js ''favorite'') = Bool True \<longrightarrow>
      (\<exists>d tags. fst (batch e userId (js ''favorite'') data [x, y] s) =
           [ItemFailure x ''Document not found'', ItemSuccess y (Updated (d, tags))] \<and>
           is_favorite d = Bool True \<and> doc_id d = y \<and> user_id d = userId)) \<and>
   batch e userId action data (documentId # rest) s =
     (case batchAction e userId action data documentId s of
        (outcome, s1) \<Rightarrow>
          (case batch e userId action data rest s1 of
             (results, s2) \<Rightarrow>
               ((case outcome of
                   Inr result \<Rightarrow> ItemSuccess documentId result
                 | Inl err \<Rightarrow> ItemFailure documentId (message err)) # results, s2))) \<and>
   (\<forall>i<length documentIds.
      fst (batch e userId action data documentIds s) ! i =
        (case fst (batchAction e userId action data (documentIds ! i)
                     (snd (batch e userId action data (take i documentIds) s))) of
           Inr result \<Rightarrow> ItemSuccess (documentIds ! i) result
         | Inl err \<Rightarrow> ItemFailure (documentIds ! i) (message err))) \<and>
   fst (batchAction e userId action data documentId s) =
     (if action = js ''delete'' then
        map_sum id (\<lambda>_. Deleted) (fst (deleteDocument e documentId userId s))
      else if action = js ''favorite'' then
        map_sum id Updated
          (fst (updateDocument e documentId userId
                  [(js ''is_favorite'', property data (js ''favorite''))] s))
      else if action = js ''archive'' then
        map_sum id Updated
          (fst (updateDocument e documentId userId
                  [(js ''is_archived'', property data (js ''archived''))] s))
      else Inl InvalidBatchAction) \<and>
   (action \<noteq> js ''delete'' \<and> action \<noteq> js ''favorite'' \<and> action \<noteq> js ''archive'' \<longrightarrow>
      batch e userId action data documentIds s =
        (map (\<lambda>documentId. ItemFailure documentId ''Invalid batch action'') documentIds, s)) \<and>
   ((\<forall>n. io_fault e n = None) \<and> owned_rows x userId s = [] \<longrightarrow>
      fst (batch e userId (js ''delete'') data [x] s) = [ItemFailure x ''Document not found''] \<and>
      (property data (js ''archived'') \<noteq> Undefined \<longrightarrow>
         fst (batch e userId (js ''archive'') data [x] s) =
           [ItemFailure x ''Document not found'']))"
proof (intro conjI)
  show "map entry_id (fst (batch e userId action data documentIds s)) = documentIds"
    by (rule batch_ids)
  show "batch e userId action data (documentIds @ moreIds) s =
     (case batch e userId action data documentIds s of
        (results1, s1) \<Rightarrow>
          (case batch e userId action data moreIds s1 of
             (results2, s2) \<Rightarrow> (results1 @ results2, s2)))"
    by (rule batch_append)
  show "(\<forall>n. io_fault e n = None) \<and> owned_rows x userId s = [] \<and> owned_rows y userId s \<noteq> [] \<and>
    property data (js ''favorite'') = Bool True \<longrightarrow>
      (\<exists>d tags. fst (batch e userId (js ''favorite'') data [x, y] s) =
           [ItemFailure x ''Document not found'', ItemSuccess y (Updated (d, tags))] \<and>
           is_favorite d = Bool True \<and> doc_id d = y \<and> user_id d = userId)"
    using batch_favorite_scenario [of e x userId s y data] by blast
  show "batch e userId action data (documentId # rest) s =
     (case batchAction e userId action data documentId s of
        (outcome, s1) \<Rightarrow>
          (case batch e userId action data rest s1 of
             (results, s2) \<Rightarrow>
               ((case outcome of
                   Inr result \<Rightarrow> ItemSuccess documentId result
                 | Inl err \<Rightarrow> ItemFailure documentId (message err)) # results, s2)))"
    by (rule batch_Cons)
  show "\<forall>i<length documentIds.
      fst (batch e userId action data documentIds s) ! i =
        (case fst (batchAction e userId action data (documentIds ! i)
                     (snd (batch e userId action data (take i documentIds) s))) of
           Inr result \<Rightarrow> ItemSuccess (documentIds ! i) result
         | Inl err \<Rightarrow> ItemFailure (documentIds ! i) (message err))"
    using batch_nth [of _ documentIds e userId action data s] by blast
  show "fst (batchAction e userId action data documentId s) =
     (if action = js ''delete'' then
        map_sum id (\<lambda>_. Deleted) (fst (deleteDocument e documentId userId s))
      else if action = js ''favorite'' then
        map_sum id Updated
          (fst (updateDocument e documentId userId
                  [(js ''is_favorite'', property data (js ''favorite''))] s))
      else if action = js ''archive'' then
        map_sum id Updated
          (fst (updateDocument e documentId userId
                  [(js ''is_archived'', property data (js ''archived''))] s))
      else Inl InvalidBatchAction)"
    by (rule batchAction_outcome)
  show "action \<noteq> js ''delete'' \<and> action \<noteq> js ''favorite'' \<and> action \<noteq> js ''archive'' \<longrightarrow>
      batch e userId action data documentIds s =
        (map (\<lambda>documentId. ItemFailure documentId ''Invalid batch action'') documentIds, s)"
    using batch_invalid_action [of action e userId data documentIds s] by blast
  show "(\<forall>n. io_fault e n = None) \<and> owned_rows x userId s = [] \<longrightarrow>
      fst (batch e userId (js ''delete'') data [x] s) = [ItemFailure x ''Document not found''] \<and>
      (property data (js ''archived'') \<noteq> Undefined \<longrightarrow>
         fst (batch e userId (js ''archive'') data [x] s) =
           [ItemFailure x ''Document not found''])"
    using batch_not_owned [of e x userId s data] by blast
qed

lemma two_owner_rows:
  "owned_rows (js ''doc-2'') (js ''user-1'') two_owner_store = []"
  "owned_rows (js ''doc-1'') (js ''user-1'') two_owner_store = [example_row]"
  by (simp_all add: owned_rows_def two_owner_store_def example_row_def js_def)

theorem batch_isolates_failures_witness:
  "owned_rows (js ''doc-2'') (js ''user-1'') two_owner_store = [] \<and>
   owned_rows (js ''doc-1'') (js ''user-1'') two_owner_store = [example_row] \<and>
   (\<exists>d tags.
      fst (batch no_faults (js ''user-1'') (js ''favorite'') [(js ''favorite'', Bool True)]
             [js ''doc-2'', js ''doc-1''] two_owner_store) =
        [ItemFailure (js ''doc-2'') ''Document not found'',
         ItemSuccess (js ''doc-1'') (Updated (d, tags))] \<and>
      is_favorite d = Bool True \<and> doc_id d = js ''doc-1'' \<and> user_id d = js ''user-1'' \<and>
      fst (batchAction no_faults (js ''user-1'') (js ''favorite'') [(js ''favorite'', Bool True)]
             (js ''doc-1'')
             (snd (batch no_faults (js ''user-1'') (js ''favorite'') [(js ''favorite'', Bool True)]
                     [js ''doc-2''] two_owner_store))) = Inr (Updated (d, tags))) \<and>
   fst (batch no_faults (js ''user-1'') (js ''delete'') [] [js ''doc-2''] two_owner_store) =
     [ItemFailure (js ''doc-2'') ''Document not found''] \<and>
   fst (batch no_faults (js ''user-1'') (js ''archive'') [(js ''archived'', Bool True)]
          [js ''doc-2''] two_owner_store) =
     [ItemFailure (js ''doc-2'') ''Document not found''] \<and>
   batch no_faults (js ''user-1'') (js ''rename'') [] [js ''doc-2'', js ''doc-1''] two_owner_store =
     ([ItemFailure (js ''doc-2'') ''Invalid batch action'',
       ItemFailure (js ''doc-1'') ''Invalid batch action''], two_owner_store)"
proof -
  let ?ids = "[js ''doc-2'', js ''doc-1'']"
  let ?fav = "[(js ''favorite'', Bool True)]"
  let ?arch = "[(js ''archived'', Bool True)]"
  have nf: "\<forall>n. io_fault no_faults n = None" by (simp add: no_faults_def)
  have p: "property ?fav (js ''favorite'') = Bool True"
    and q: "property ?arch (js ''archived'') \<noteq> Undefined"
    by (simp_all add: property_def)
  have y: "owned_rows (js ''doc-1'') (js ''user-1'') two_owner_store \<noteq> []"
    by (simp add: two_owner_rows)
  have r: "js ''rename'' \<noteq> js ''delete''" "js ''rename'' \<noteq> js ''favorite''"
    "js ''rename'' \<noteq> js ''archive''"
    by (simp_all add: js_def)
  have i: "(1::nat) < length ?ids" "?ids ! 1 = js ''doc-1''" "take 1 ?ids = [js ''doc-2'']"
    by simp_all
  note a = batch_isolates_failures [where e = no_faults and userId = "js ''user-1''"
      and action = "js ''favorite''" and data = ?fav and documentIds = ?ids
      and s = two_owner_store and x = "js ''doc-2''" and y = "js ''doc-1''"]
  from a nf two_owner_rows(1) y p
  obtain d tags where b: "fst (batch no_faults (js ''user-1'') (js ''favorite'') ?fav ?ids
        two_owner_store) =
        [ItemFailure (js ''doc-2'') ''Document not found'',
         ItemSuccess (js ''doc-1'') (Updated (d, tags))]"
    and d: "is_favorite d = Bool True" "doc_id d = js ''doc-1''" "user_id d = js ''user-1''"
    by blast
  let ?item = "fst (batchAction no_faults (js ''user-1'') (js ''favorite'') ?fav (js ''doc-1'')
             (snd (batch no_faults (js ''user-1'') (js ''favorite'') ?fav [js ''doc-2'']
                     two_owner_store)))"
  from a i(1)
  have "fst (batch no_faults (js ''user-1'') (js ''favorite'') ?fav ?ids two_owner_store) ! 1 =
        (case fst (batchAction no_faults (js ''user-1'') (js ''favorite'') ?fav (?ids ! 1)
                     (snd (batch no_faults (js ''user-1'') (js ''favorite'') ?fav (take 1 ?ids)
                        two_owner_store))) of
           Inr result \<Rightarrow> ItemSuccess (?ids ! 1) result
         | Inl err \<Rightarrow> ItemFailure (?ids ! 1) (message err))"
    by blast
  then have "ItemSuccess (js ''doc-1'') (Updated (d, tags)) =
        (case ?item of
           Inr result \<Rightarrow> ItemSuccess (js ''doc-1'') result
         | Inl err \<Rightarrow> ItemFailure (js ''doc-1'') (message err))"
    unfolding b i(2) i(3) by simp
  then have item: "?item = Inr (Updated (d, tags))"
    by (cases ?item) simp_all
  note c = batch_isolates_failures [where e = no_faults and userId = "js ''user-1''"
      and action = "js ''rename''" and data = "[]" and documentIds = ?ids
      and s = two_owner_store and x = "js ''doc-2''"]
  from c nf two_owner_rows(1)
  have del: "fst (batch no_faults (js ''user-1'') (js ''delete'') [] [js ''doc-2''] two_owner_store) =
     [ItemFailure (js ''doc-2'') ''Document not found'']"
    by blast
  from c r
  have "batch no_faults (js ''user-1'') (js ''rename'') [] ?ids two_owner_store =
     (map (\<lambda>documentId. ItemFailure documentId ''Invalid batch action'') ?ids, two_owner_store)"
    by blast
  then have inv: "batch no_faults (js ''user-1'') (js ''rename'') [] ?ids two_owner_store =
     ([ItemFailure (js ''doc-2'') ''Invalid batch action'',
       ItemFailure (js ''doc-1'') ''Invalid batch action''], two_owner_store)"
    by simp
  from batch_isolates_failures [where e = no_faults and userId = "js ''user-1''"
      and data = ?arch and s = two_owner_store and x = "js ''doc-2''"]
    nf two_owner_rows(1) q
  have arch: "fst (batch no_faults (js ''user-1'') (js ''archive'') ?arch [js ''doc-2'']
          two_owner_store) = [ItemFailure (js ''doc-2'') ''Document not found'']"
    by blast
  from b d item have "\<exists>d tags.
      fst (batch no_faults (js ''user-1'') (js ''favorite'') ?fav ?ids two_owner_store) =
        [ItemFailure (js ''doc-2'') ''Document not found'',
         ItemSuccess (js ''doc-1'') (Updated (d, tags))] \<and>
      is_favorite d = Bool True \<and> doc_id d = js ''doc-1'' \<and> user_id d = js ''user-1'' \<and>
      ?item = Inr (Updated (d, tags))"
    by blast
  with two_owner_rows del arch inv show ?thesis by blast
qed

section \<open>The storage root of the service\<close>

text \<open>
  The root the service stores under is a normalized absolute path, as the layout of the
  storage paths requires, whenever \<open>__dirname\<close> is absolute.
\<close>

lemma split_char_no_sep: "\<forall>seg \<in> set (split [c] s). c \<notin> set seg"
proof (induction s)
  case Nil
  then show ?case by (simp add: split_char_Nil)
next
  case (Cons a s)
  have ne: "split [c] s \<noteq> []" by (rule split_not_Nil) simp
  then obtain p ps where p: "split [c] s = p # ps" by (cases "split [c] s") auto
  with Cons show ?case by (auto simp: split_char_Cons)
qed

lemma normalizeSegments_append:
  "normalizeSegments a res (xs @ ys) = normalizeSegments a (rev (normalizeSegments a res xs)) ys"
  by (induction a res xs rule: normalizeSegments.induct) (auto split: list.splits)

lemma normalizeSegments_absolute_plain:
  assumes "list_all isPlainSegment res" and "\<forall>seg \<in> set segs. 0x2F \<notin> set seg"
  shows "list_all isPlainSegment (normalizeSegments False res segs)"
  using assms
proof (induction segs arbitrary: res)
  case Nil
  then show ?case by simp
next
  case (Cons seg segs)
  then show ?case
    by (cases res) (auto simp: isPlainSegment_def)
qed

lemma constructor_baseStoragePath_normalized:
  assumes "dirname \<noteq> []" and "hd dirname = 0x2F"
  shows "isNormalizedRoot (constructor_baseStoragePath dirname)"
proof -
  let ?p = "dirname @ 0x2F # js ''..'' @ 0x2F # js ''stored''"
  let ?d = "normalizeSegments False [] (split (js ''/'') dirname)"
  have j: "join (js ''/'') [dirname, js ''..'', js ''stored''] = ?p"
    by (simp add: join_def js_def)
  have sp: "split (js ''/'') ?p = split (js ''/'') dirname @ [js ''..'', js ''stored'']"
    by (simp add: slash_js split_char_sep) (simp add: js_def split.simps)
  have pl: "list_all isPlainSegment ?d"
    using split_char_no_sep [of "0x2F" dirname]
    by (intro normalizeSegments_absolute_plain) (simp_all add: slash_js)
  have ns: "normalizeSegments False [] (split (js ''/'') ?p) = butlast ?d @ [js ''stored'']"
  proof -
    have "normalizeSegments False [] (split (js ''/'') ?p) =
        normalizeSegments False (rev ?d) [js ''..'', js ''stored'']"
      by (simp only: sp normalizeSegments_append)
    also have "\<dots> = butlast ?d @ [js ''stored'']"
    proof (cases "rev ?d")
      case Nil
      then show ?thesis by (simp add: js_def)
    next
      case (Cons lastSeg below)
      then have d: "?d = rev below @ [lastSeg]" by (metis rev.simps(2) rev_rev_ident)
      with pl have "lastSeg \<noteq> js ''..''" by (simp add: isPlainSegment_def)
      with Cons d show ?thesis by (simp add: js_def)
    qed
    finally show ?thesis .
  qed
  have segs: "list_all isPlainSegment (butlast ?d @ [js ''stored''])"
    using pl by (auto simp: list_all_iff isPlainSegment_def js_def dest: in_set_butlastD)
  have ne: "join (js ''/'') (butlast ?d @ [js ''stored'']) \<noteq> []"
  proof (cases "butlast ?d")
    case Nil
    then show ?thesis by (simp add: js_def)
  next
    case (Cons x xs)
    with segs have "x \<noteq> []" by (simp add: isPlainSegment_def)
    with Cons show ?thesis by (simp add: join_Cons)
  qed
  have tr: "last ?p \<noteq> 0x2F" by (simp add: js_def)
  have hd: "hd ?p = 0x2F" using assms by (cases dirname) simp_all
  have f: "filter (\<lambda>a. a \<noteq> []) [dirname, js ''..'', js ''stored''] =
      [dirname, js ''..'', js ''stored'']"
    using assms(1) by (simp add: js_def)
  have "constructor_baseStoragePath dirname =
      path_normalize (join (js ''/'') [dirname, js ''..'', js ''stored''])"
    unfolding constructor_baseStoragePath_def path_join_def Let_def f by simp
  then have "constructor_baseStoragePath dirname = path_normalize ?p"
    by (simp only: j)
  also have "\<dots> = 0x2F # join (js ''/'') (butlast ?d @ [js ''stored''])"
    unfolding path_normalize_def using ns ne tr hd by (simp add: Let_def slash_js)
  finally show ?thesis
    using segs by (simp add: isNormalizedRoot_join)
qed

lemma example_constructor_baseStoragePath:
  "constructor_baseStoragePath (js ''/srv/app/services'') = js ''/srv/app/stored''"
  by (simp add: constructor_baseStoragePath_def path_join_def join_def path_normalize_def js_def split.simps)

end
